theory Spec2Isabelle
  imports Complex_Main "HOL-Library.Multiset"
begin

section \<open>Numbers\<close>

text \<open>
  The simulator computes with JavaScript numbers. The model computes with exact reals and
  leaves rounding aside. The one non-finite value the component classes produce on
  purpose is \<open>Infinity\<close>, returned by \<open>getResistance()\<close>; it is kept as a value of its own,
  with the four places where \<open>buildConductanceMatrix\<close> consumes a resistance written out
  as JavaScript evaluates them.
\<close>

datatype resistance = Ohms real | Infinity

text \<open>\<open>resistance > 0\<close>\<close>

definition positive :: "resistance \<Rightarrow> bool" where
  "positive r = (case r of Ohms x \<Rightarrow> x > 0 | Infinity \<Rightarrow> True)"

text \<open>\<open>1 / resistance\<close>, read only where \<open>resistance > 0\<close>; \<open>1 / Infinity\<close> is 0.\<close>

definition reciprocal :: "resistance \<Rightarrow> real" where
  "reciprocal r = (case r of Ohms x \<Rightarrow> 1 / x | Infinity \<Rightarrow> 0)"

text \<open>\<open>resistance || 1\<close>: 0 is falsy, every other resistance is kept.\<close>

definition orOne :: "resistance \<Rightarrow> resistance" where
  "orOne r = (case r of Ohms x \<Rightarrow> (if x = 0 then Ohms 1 else Ohms x) | Infinity \<Rightarrow> Infinity)"

text \<open>\<open>voltage / r\<close> for a finite voltage and \<open>r\<close> as left by \<open>orOne\<close>.\<close>

definition dividedBy :: "real \<Rightarrow> resistance \<Rightarrow> real" where
  "dividedBy v r = (case r of Ohms x \<Rightarrow> v / x | Infinity \<Rightarrow> 0)"

section \<open>Components\<close>

text \<open>
  \<open>Terminal\<close> of \<open>core/Component.ts\<close>. The \<open>position\<close> field, like every other visual
  property (width, height, colour, rotation), takes no part in the electrical behaviour
  and is left out.
\<close>

record Terminal =
  node :: nat
  voltage :: real
  current :: real

datatype ComponentType = BATTERY | RESISTOR | LED | CAPACITOR | SWITCH | MOTOR | INDUCTOR

text \<open>The private fields of the six concrete classes.\<close>

record BatteryFields =
  batteryVoltage :: real
  internalResistance :: real

record ResistorFields =
  resistorResistance :: real
  ratedPower :: real

record LEDFields =
  forwardVoltage :: real
  forwardResistance :: real
  reverseResistance :: real
  maxCurrent :: real
  brightness :: real

record CapacitorFields =
  capacitance :: real
  charge :: real
  maxVoltage :: real
  esr :: real

record SwitchFields =
  isOpen :: bool
  closedResistance :: real
  openResistance :: real

record MotorFields =
  coilResistance :: real
  backEmfConstant :: real
  rpm :: real
  maxRPM :: real
  rotorAngle :: real

datatype Variant =
    Battery BatteryFields
  | Resistor ResistorFields
  | Led LEDFields
  | Capacitor CapacitorFields
  | Switch SwitchFields
  | Motor MotorFields

text \<open>
  The abstract class \<open>Component\<close>: the protected fields every device shares, and the
  fields of the concrete subclass in \<open>variant\<close>.
\<close>

record Component =
  terminals :: "Terminal list"
  temperature :: real
  maxTemperature :: real
  isBurned :: bool
  powerDissipation :: real
  variant :: Variant

definition getType :: "Component \<Rightarrow> ComponentType" where
  "getType c =
     (case variant c of
        Battery _ \<Rightarrow> BATTERY | Resistor _ \<Rightarrow> RESISTOR | Led _ \<Rightarrow> LED
      | Capacitor _ \<Rightarrow> CAPACITOR | Switch _ \<Rightarrow> SWITCH | Motor _ \<Rightarrow> MOTOR)"

text \<open>\<open>getTerminal(index)\<close>: \<open>this.terminals[index] || null\<close>.\<close>

definition getTerminal :: "Component \<Rightarrow> nat \<Rightarrow> Terminal option" where
  "getTerminal c i = (if i < length (terminals c) then Some (terminals c ! i) else None)"

subsection \<open>Node identifiers\<close>

text \<open>
  \<open>Component.generateNodeId\<close> of the base class with its static counter
  \<open>Component.nextNodeId\<close> (initially 1): it returns the counter and increments it.
  \<open>resetNodeCounter\<close> puts it back to 1.
\<close>

definition Component_generateNodeId :: "nat \<Rightarrow> nat \<times> nat" where
  "Component_generateNodeId nextNodeId = (nextNodeId, nextNodeId + 1)"

definition resetNodeCounter :: nat where
  "resetNodeCounter = 1"

text \<open>
  Every concrete class (Battery, Resistor, LED, Switch, Capacitor, Motor) declares a
  \<open>generateNodeId\<close> of its own, the same in all six, and \<open>initializeTerminals\<close> calls
  \<open>this.generateNodeId()\<close>, so this is the method that runs:
  \<open>Math.floor(Math.random() * 1000000)\<close>. The argument is the value \<open>Math.random()\<close>
  returned, a number in \<open>[0, 1)\<close>.
\<close>

definition generateNodeId :: "real \<Rightarrow> nat" where
  "generateNodeId random = nat \<lfloor>random * 1000000\<rfloor>"

subsection \<open>Constructors\<close>

text \<open>
  Each constructor sets the defaults of \<open>Component\<close> (temperature 25, maxTemperature 150
  unless the subclass overrides it, not burned, no dissipation) and then calls
  \<open>initializeTerminals\<close>, which draws two node ids; \<open>r0\<close> and \<open>r1\<close> are the two values
  of \<open>Math.random()\<close> in the order drawn.
\<close>

definition newTerminal :: "real \<Rightarrow> real \<Rightarrow> Terminal" where
  "newTerminal random v = \<lparr>node = generateNodeId random, voltage = v, current = 0\<rparr>"

definition Battery_new :: "real \<Rightarrow> real \<Rightarrow> real \<Rightarrow> Component" where
  "Battery_new v r0 r1 =
     \<lparr>terminals = [newTerminal r0 0, newTerminal r1 v],
      temperature = 25, maxTemperature = 150, isBurned = False, powerDissipation = 0,
      variant = Battery \<lparr>batteryVoltage = v, internalResistance = 0.1\<rparr>\<rparr>"

definition Resistor_new :: "real \<Rightarrow> real \<Rightarrow> real \<Rightarrow> Component" where
  "Resistor_new r r0 r1 =
     \<lparr>terminals = [newTerminal r0 0, newTerminal r1 0],
      temperature = 25, maxTemperature = 200, isBurned = False, powerDissipation = 0,
      variant = Resistor \<lparr>resistorResistance = r, ratedPower = 0.25\<rparr>\<rparr>"

text \<open>
  \<open>setLEDColor\<close> looks the colour up in a table of forward voltages (red 2.0, green 2.2,
  blue 3.2, yellow 2.1, white 3.4; anything else is red); the constructor takes the
  forward voltage found there.
\<close>

definition LED_new :: "real \<Rightarrow> real \<Rightarrow> real \<Rightarrow> Component" where
  "LED_new vf r0 r1 =
     \<lparr>terminals = [newTerminal r0 0, newTerminal r1 0],
      temperature = 25, maxTemperature = 125, isBurned = False, powerDissipation = 0,
      variant = Led \<lparr>forwardVoltage = vf, forwardResistance = 10,
        reverseResistance = 1000000, maxCurrent = 0.03, brightness = 0\<rparr>\<rparr>"

definition Capacitor_new :: "real \<Rightarrow> real \<Rightarrow> real \<Rightarrow> Component" where
  "Capacitor_new cap r0 r1 =
     \<lparr>terminals = [newTerminal r0 0, newTerminal r1 0],
      temperature = 25, maxTemperature = 150, isBurned = False, powerDissipation = 0,
      variant = Capacitor \<lparr>capacitance = cap, charge = 0, maxVoltage = 25, esr = 0.1\<rparr>\<rparr>"

definition Switch_new :: "bool \<Rightarrow> real \<Rightarrow> real \<Rightarrow> Component" where
  "Switch_new opn r0 r1 =
     \<lparr>terminals = [newTerminal r0 0, newTerminal r1 0],
      temperature = 25, maxTemperature = 150, isBurned = False, powerDissipation = 0,
      variant = Switch \<lparr>isOpen = opn, closedResistance = 0.01,
        openResistance = 1000000000\<rparr>\<rparr>"

definition Motor_new :: "real \<Rightarrow> real \<Rightarrow> Component" where
  "Motor_new r0 r1 =
     \<lparr>terminals = [newTerminal r0 0, newTerminal r1 0],
      temperature = 25, maxTemperature = 180, isBurned = False, powerDissipation = 0,
      variant = Motor \<lparr>coilResistance = 5, backEmfConstant = 0.01, rpm = 0,
        maxRPM = 5000, rotorAngle = 0\<rparr>\<rparr>"

subsection \<open>Resistance, voltage and current\<close>

text \<open>
  \<open>this.terminals[0].voltage - this.terminals[1].voltage\<close> when there are two terminals,
  else 0: the body of \<open>getVoltage\<close> in Resistor, LED, Switch and Motor.
\<close>

definition terminalVoltage :: "Component \<Rightarrow> real" where
  "terminalVoltage c =
     (if length (terminals c) = 2
      then voltage (terminals c ! 0) - voltage (terminals c ! 1) else 0)"

definition Battery_getResistance :: "Component \<Rightarrow> BatteryFields \<Rightarrow> resistance" where
  "Battery_getResistance c f = Ohms (internalResistance f)"

definition Resistor_getResistance :: "Component \<Rightarrow> ResistorFields \<Rightarrow> resistance" where
  "Resistor_getResistance c f = (if isBurned c then Infinity else Ohms (resistorResistance f))"

definition LED_getResistance :: "Component \<Rightarrow> LEDFields \<Rightarrow> resistance" where
  "LED_getResistance c f =
     (if isBurned c then Infinity
      else let v = terminalVoltage c in
        if v \<ge> forwardVoltage f then Ohms (forwardResistance f)
        else if v > 0 then Ohms (forwardResistance f * exp ((forwardVoltage f - v) * 5))
        else Ohms (reverseResistance f))"

definition Capacitor_getResistance :: "Component \<Rightarrow> CapacitorFields \<Rightarrow> resistance" where
  "Capacitor_getResistance c f = Ohms (esr f)"

definition Switch_getResistance :: "Component \<Rightarrow> SwitchFields \<Rightarrow> resistance" where
  "Switch_getResistance c f = Ohms (if isOpen f then openResistance f else closedResistance f)"

definition Motor_getResistance :: "Component \<Rightarrow> MotorFields \<Rightarrow> resistance" where
  "Motor_getResistance c f = (if isBurned c then Infinity else Ohms (coilResistance f))"

text \<open>The virtual call \<open>component.getResistance()\<close>.\<close>

definition getResistance :: "Component \<Rightarrow> resistance" where
  "getResistance c =
     (case variant c of
        Battery f \<Rightarrow> Battery_getResistance c f
      | Resistor f \<Rightarrow> Resistor_getResistance c f
      | Led f \<Rightarrow> LED_getResistance c f
      | Capacitor f \<Rightarrow> Capacitor_getResistance c f
      | Switch f \<Rightarrow> Switch_getResistance c f
      | Motor f \<Rightarrow> Motor_getResistance c f)"

definition Battery_getVoltage :: "Component \<Rightarrow> BatteryFields \<Rightarrow> real" where
  "Battery_getVoltage c f = (if isBurned c then 0 else batteryVoltage f)"

text \<open>\<open>V = Q/C\<close>: \<open>this.charge / this.capacitance\<close>.\<close>

definition Capacitor_getVoltage :: "Component \<Rightarrow> CapacitorFields \<Rightarrow> real" where
  "Capacitor_getVoltage c f = charge f / capacitance f"

definition getVoltage :: "Component \<Rightarrow> real" where
  "getVoltage c =
     (case variant c of
        Battery f \<Rightarrow> Battery_getVoltage c f
      | Resistor f \<Rightarrow> terminalVoltage c
      | Led f \<Rightarrow> terminalVoltage c
      | Capacitor f \<Rightarrow> Capacitor_getVoltage c f
      | Switch f \<Rightarrow> terminalVoltage c
      | Motor f \<Rightarrow> terminalVoltage c)"

text \<open>\<open>this.terminals[0].current\<close> when there are two terminals: Battery and Capacitor.\<close>

definition terminalCurrent :: "Component \<Rightarrow> real" where
  "terminalCurrent c = (if length (terminals c) = 2 then current (terminals c ! 0) else 0)"

definition Resistor_getCurrent :: "Component \<Rightarrow> ResistorFields \<Rightarrow> real" where
  "Resistor_getCurrent c f =
     (if length (terminals c) = 2 \<and> \<not> isBurned c
      then terminalVoltage c / resistorResistance f else 0)"

definition LED_getCurrent :: "Component \<Rightarrow> LEDFields \<Rightarrow> real" where
  "LED_getCurrent c f =
     (if length (terminals c) = 2 \<and> \<not> isBurned c \<and> terminalVoltage c \<ge> forwardVoltage f
      then min ((terminalVoltage c - forwardVoltage f) / forwardResistance f)
               (maxCurrent f * 1.5)
      else 0)"

definition Switch_getCurrent :: "Component \<Rightarrow> SwitchFields \<Rightarrow> real" where
  "Switch_getCurrent c f =
     (if length (terminals c) = 2 \<and> \<not> isOpen f
      then terminalVoltage c / closedResistance f else 0)"

definition Motor_getCurrent :: "Component \<Rightarrow> MotorFields \<Rightarrow> real" where
  "Motor_getCurrent c f =
     (if length (terminals c) = 2 \<and> \<not> isBurned c
      then (terminalVoltage c - backEmfConstant f * rpm f) / coilResistance f else 0)"

definition getCurrent :: "Component \<Rightarrow> real" where
  "getCurrent c =
     (case variant c of
        Battery f \<Rightarrow> terminalCurrent c
      | Resistor f \<Rightarrow> Resistor_getCurrent c f
      | Led f \<Rightarrow> LED_getCurrent c f
      | Capacitor f \<Rightarrow> terminalCurrent c
      | Switch f \<Rightarrow> Switch_getCurrent c f
      | Motor f \<Rightarrow> Motor_getCurrent c f)"

subsection \<open>The per-tick update\<close>

text \<open>\<open>Component.updateTemperature\<close>: first-order approach to the target temperature.\<close>

definition updateTemperature :: "real \<Rightarrow> Component \<Rightarrow> Component" where
  "updateTemperature deltaTime c =
     (let ambientTemp = 25;
          thermalResistance = 10;
          thermalCapacity = 50;
          targetTemp = ambientTemp + powerDissipation c * thermalResistance;
          tau = thermalCapacity * thermalResistance;
          alpha = 1 - exp (- deltaTime / tau);
          c1 = c\<lparr>temperature := temperature c + (targetTemp - temperature c) * alpha\<rparr>
      in if temperature c1 > maxTemperature c1 then c1\<lparr>isBurned := True\<rparr> else c1)"

text \<open>
  \<open>terminals[0].current = current; terminals[1].current = -current\<close>, done only when
  there are two terminals.
\<close>

definition setTerminalCurrents :: "real \<Rightarrow> Component \<Rightarrow> Component" where
  "setTerminalCurrents i c =
     (if length (terminals c) = 2
      then c\<lparr>terminals := [(terminals c ! 0)\<lparr>current := i\<rparr>, (terminals c ! 1)\<lparr>current := - i\<rparr>]\<rparr>
      else c)"

definition Battery_update :: "real \<Rightarrow> Component \<Rightarrow> BatteryFields \<Rightarrow> Component" where
  "Battery_update deltaTime c f =
     (let i = \<bar>terminalCurrent c\<bar>;
          c1 = c\<lparr>powerDissipation := i * i * internalResistance f\<rparr>
      in updateTemperature deltaTime c1)"

definition Resistor_update :: "real \<Rightarrow> Component \<Rightarrow> ResistorFields \<Rightarrow> Component" where
  "Resistor_update deltaTime c f =
     (let i = Resistor_getCurrent c f;
          c1 = c\<lparr>powerDissipation := i * i * resistorResistance f\<rparr>;
          c2 = (if powerDissipation c1 > ratedPower f * 2 then c1\<lparr>isBurned := True\<rparr> else c1);
          c3 = updateTemperature deltaTime c2
      in setTerminalCurrents i c3)"

definition LED_update :: "real \<Rightarrow> Component \<Rightarrow> LEDFields \<Rightarrow> Component" where
  "LED_update deltaTime c f =
     (let i = LED_getCurrent c f;
          v = terminalVoltage c;
          f1 = (if i > 0 \<and> \<not> isBurned c then f\<lparr>brightness := min (i / maxCurrent f) 1\<rparr>
                else f\<lparr>brightness := 0\<rparr>);
          c1 = c\<lparr>powerDissipation := v * i, variant := Led f1\<rparr>;
          c2 = (if i > maxCurrent f * 2
                then c1\<lparr>isBurned := True, variant := Led (f1\<lparr>brightness := 0\<rparr>)\<rparr> else c1);
          c3 = updateTemperature deltaTime c2
      in setTerminalCurrents i c3)"

definition Capacitor_update :: "real \<Rightarrow> Component \<Rightarrow> CapacitorFields \<Rightarrow> Component" where
  "Capacitor_update deltaTime c f =
     (let c3 =
        (if length (terminals c) = 2 \<and> \<not> isBurned c then
           (let i = (voltage (terminals c ! 0) - voltage (terminals c ! 1)) / esr f;
                f1 = f\<lparr>charge := charge f + i * deltaTime\<rparr>;
                maxCharge = maxVoltage f1 * capacitance f1;
                c1 = (if \<bar>charge f1\<bar> > maxCharge
                      then c\<lparr>isBurned := True, variant := Capacitor (f1\<lparr>charge := 0\<rparr>)\<rparr>
                      else c\<lparr>variant := Capacitor f1\<rparr>)
            in setTerminalCurrents i c1)
         else c);
          c4 = c3\<lparr>powerDissipation := terminalCurrent c3 * terminalCurrent c3 * esr f\<rparr>
      in updateTemperature deltaTime c4)"

definition Switch_update :: "real \<Rightarrow> Component \<Rightarrow> SwitchFields \<Rightarrow> Component" where
  "Switch_update deltaTime c f =
     (let i = Switch_getCurrent c f;
          c1 = c\<lparr>powerDissipation := i * i * closedResistance f\<rparr>;
          c2 = updateTemperature deltaTime c1
      in setTerminalCurrents i c2)"

definition Motor_update :: "real \<Rightarrow> Component \<Rightarrow> MotorFields \<Rightarrow> Component" where
  "Motor_update deltaTime c f =
     (if isBurned c then
        (let f1 = f\<lparr>rpm := rpm f * 0.95\<rparr>;
             f2 = f1\<lparr>rotorAngle := rotorAngle f1 + (rpm f1 / 60) * deltaTime * pi * 2\<rparr>
         in c\<lparr>variant := Motor f2\<rparr>)
      else
        (let i = Motor_getCurrent c f;
             torqueConstant = 0.01;
             inertia = 0.0001;
             friction = 0.1;
             torque = torqueConstant * i;
             angularAcceleration = torque / inertia;
             rpmAcceleration = angularAcceleration * (60 / (2 * pi));
             f1 = f\<lparr>rpm := rpm f + (rpmAcceleration - friction * rpm f) * deltaTime\<rparr>;
             f2 = f1\<lparr>rpm := max 0 (min (rpm f1) (maxRPM f1))\<rparr>;
             f3 = f2\<lparr>rotorAngle := rotorAngle f2 + (rpm f2 / 60) * deltaTime * pi * 2\<rparr>;
             c1 = c\<lparr>variant := Motor f3, powerDissipation := i * i * coilResistance f3\<rparr>;
             c2 = updateTemperature deltaTime c1
         in setTerminalCurrents i c2))"

text \<open>The virtual call \<open>component.update(deltaTime)\<close>.\<close>

definition update :: "real \<Rightarrow> Component \<Rightarrow> Component" where
  "update deltaTime c =
     (case variant c of
        Battery f \<Rightarrow> Battery_update deltaTime c f
      | Resistor f \<Rightarrow> Resistor_update deltaTime c f
      | Led f \<Rightarrow> LED_update deltaTime c f
      | Capacitor f \<Rightarrow> Capacitor_update deltaTime c f
      | Switch f \<Rightarrow> Switch_update deltaTime c f
      | Motor f \<Rightarrow> Motor_update deltaTime c f)"

section \<open>Wires and the simulation state\<close>

text \<open>
  \<open>core/Wire.ts\<close>. A wire holds references to its two components and the indices of the
  terminals it joins. Components and wires are objects shared by reference between the
  \<open>CircuitSimulator\<close>, the \<open>PhysicsEngine\<close> and the wires themselves, so both live in a
  store and are named by their addresses.
\<close>

record Wire =
  startComponent :: nat
  startTerminal :: nat
  endComponent :: nat
  endTerminal :: nat
  wireCurrent :: real
  wireResistance :: real

definition Wire_new :: "nat \<Rightarrow> nat \<Rightarrow> nat \<Rightarrow> nat \<Rightarrow> Wire" where
  "Wire_new sc st ec et =
     \<lparr>startComponent = sc, startTerminal = st, endComponent = ec, endTerminal = et,
      wireCurrent = 0, wireResistance = 0.01\<rparr>"

text \<open>
  \<open>CircuitNode\<close> of \<open>physics/PhysicsEngine.ts\<close>; its \<open>components\<close> array is created empty
  and never written.
\<close>

record CircuitNode =
  nodeId :: nat
  nodeVoltage :: real
  nodeComponents :: "nat list"

text \<open>
  The whole state: the two object stores, the fields of the \<open>PhysicsEngine\<close>
  (\<open>components\<close>, \<open>wires\<close>, \<open>nodes\<close>, \<open>accumulator\<close>), the fields of the
  \<open>CircuitSimulator\<close> (\<open>components\<close>, \<open>wires\<close>) and the static counter
  \<open>Component.nextNodeId\<close>. The \<open>Map\<close> \<open>nodes\<close> iterates in insertion order, so it is a
  list of key-value pairs with distinct keys.
\<close>

record World =
  componentObjects :: "nat \<Rightarrow> Component"
  wireObjects :: "nat \<Rightarrow> Wire"
  engineComponents :: "nat list"
  engineWires :: "nat list"
  nodes :: "(nat \<times> CircuitNode) list"
  accumulator :: real
  simComponents :: "nat list"
  simWires :: "nat list"
  nextNodeId :: nat

definition groundNode :: nat where
  "groundNode = 0"

definition timeStep :: real where
  "timeStep = 0.001"

section \<open>Circuit graph: \<open>rebuildCircuit\<close>\<close>

text \<open>\<open>if (!this.nodes.has(terminal.node)) this.nodes.set(terminal.node, {...})\<close>\<close>

definition registerNode :: "Terminal \<Rightarrow> (nat \<times> CircuitNode) list \<Rightarrow> (nat \<times> CircuitNode) list" where
  "registerNode t ns =
     (if map_of ns (node t) = None
      then ns @ [(node t, \<lparr>nodeId = node t, nodeVoltage = 0, nodeComponents = []\<rparr>)]
      else ns)"

definition assignNodes :: "(nat \<Rightarrow> Component) \<Rightarrow> nat list \<Rightarrow> (nat \<times> CircuitNode) list" where
  "assignNodes h cs = fold (\<lambda>c ns. fold registerNode (terminals (h c)) ns) cs []"

text \<open>\<open>if (terminal.node === maxNode) terminal.node = minNode\<close>\<close>

definition relabelTerminal :: "nat \<Rightarrow> nat \<Rightarrow> Terminal \<Rightarrow> Terminal" where
  "relabelTerminal maxNode minNode t = (if node t = maxNode then t\<lparr>node := minNode\<rparr> else t)"

definition relabelComponent :: "nat \<Rightarrow> nat \<Rightarrow> Component \<Rightarrow> Component" where
  "relabelComponent maxNode minNode c =
     c\<lparr>terminals := map (relabelTerminal maxNode minNode) (terminals c)\<rparr>"

text \<open>The inner loops over \<open>this.components\<close> and their terminals.\<close>

definition relabelAll :: "nat list \<Rightarrow> nat \<Rightarrow> nat \<Rightarrow> (nat \<Rightarrow> Component) \<Rightarrow> (nat \<Rightarrow> Component)" where
  "relabelAll cs maxNode minNode h =
     fold (\<lambda>c h'. h'(c := relabelComponent maxNode minNode (h' c))) cs h"

text \<open>
  One iteration of the loop over \<open>this.wires\<close>: the two terminals are looked up through
  the wire's own component references, whether or not those components are in
  \<open>this.components\<close>; the rewrite visits the components of \<open>this.components\<close> only.
\<close>

definition mergeWire :: "nat list \<Rightarrow> Wire \<Rightarrow> (nat \<Rightarrow> Component) \<Rightarrow> (nat \<Rightarrow> Component)" where
  "mergeWire cs wr h =
     (case getTerminal (h (startComponent wr)) (startTerminal wr) of
        None \<Rightarrow> h
      | Some startTerm \<Rightarrow>
          (case getTerminal (h (endComponent wr)) (endTerminal wr) of
             None \<Rightarrow> h
           | Some endTerm \<Rightarrow>
               relabelAll cs (max (node startTerm) (node endTerm))
                 (min (node startTerm) (node endTerm)) h))"

definition mergeWires :: "nat list \<Rightarrow> (nat \<Rightarrow> Wire) \<Rightarrow> nat list \<Rightarrow> (nat \<Rightarrow> Component) \<Rightarrow> (nat \<Rightarrow> Component)" where
  "mergeWires cs wo ws h = fold (\<lambda>wid. mergeWire cs (wo wid)) ws h"

definition rebuildCircuit :: "World \<Rightarrow> World" where
  "rebuildCircuit w =
     w\<lparr>nodes := assignNodes (componentObjects w) (engineComponents w),
       componentObjects :=
         mergeWires (engineComponents w) (wireObjects w) (engineWires w) (componentObjects w)\<rparr>"

section \<open>Editing the circuit\<close>

text \<open>
  \<open>indexOf\<close> followed by \<open>splice(index, 1)\<close> removes the first occurrence, and nothing
  happens when the object is not in the array.
\<close>

definition PhysicsEngine_addComponent :: "nat \<Rightarrow> World \<Rightarrow> World" where
  "PhysicsEngine_addComponent c w = rebuildCircuit (w\<lparr>engineComponents := engineComponents w @ [c]\<rparr>)"

definition PhysicsEngine_removeComponent :: "nat \<Rightarrow> World \<Rightarrow> World" where
  "PhysicsEngine_removeComponent c w =
     (if c \<in> set (engineComponents w)
      then rebuildCircuit (w\<lparr>engineComponents := remove1 c (engineComponents w)\<rparr>)
      else w)"

definition PhysicsEngine_addWire :: "nat \<Rightarrow> World \<Rightarrow> World" where
  "PhysicsEngine_addWire wid w = rebuildCircuit (w\<lparr>engineWires := engineWires w @ [wid]\<rparr>)"

definition PhysicsEngine_removeWire :: "nat \<Rightarrow> World \<Rightarrow> World" where
  "PhysicsEngine_removeWire wid w =
     (if wid \<in> set (engineWires w)
      then rebuildCircuit (w\<lparr>engineWires := remove1 wid (engineWires w)\<rparr>)
      else w)"

definition PhysicsEngine_clear :: "World \<Rightarrow> World" where
  "PhysicsEngine_clear w = w\<lparr>engineComponents := [], engineWires := [], nodes := []\<rparr>"

definition CircuitSimulator_addComponent :: "nat \<Rightarrow> World \<Rightarrow> World" where
  "CircuitSimulator_addComponent c w =
     PhysicsEngine_addComponent c (w\<lparr>simComponents := simComponents w @ [c]\<rparr>)"

text \<open>
  \<open>CircuitSimulator.removeComponent\<close>: the component leaves the simulator's array and the
  engine's, and the simulator's own \<open>wires\<close> array is filtered. The engine's \<open>wires\<close> array
  is not touched: \<open>PhysicsEngine.removeComponent\<close> edits \<open>components\<close> only.
\<close>

definition CircuitSimulator_removeComponent :: "nat \<Rightarrow> World \<Rightarrow> World" where
  "CircuitSimulator_removeComponent c w =
     (if c \<in> set (simComponents w) then
        (let w1 = w\<lparr>simComponents := remove1 c (simComponents w)\<rparr>;
             w2 = PhysicsEngine_removeComponent c w1
         in w2\<lparr>simWires :=
                 filter (\<lambda>wid. startComponent (wireObjects w2 wid) \<noteq> c
                               \<and> endComponent (wireObjects w2 wid) \<noteq> c) (simWires w2)\<rparr>)
      else w)"

definition CircuitSimulator_addWire :: "nat \<Rightarrow> World \<Rightarrow> World" where
  "CircuitSimulator_addWire wid w =
     PhysicsEngine_addWire wid (w\<lparr>simWires := simWires w @ [wid]\<rparr>)"

definition CircuitSimulator_removeWire :: "nat \<Rightarrow> World \<Rightarrow> World" where
  "CircuitSimulator_removeWire wid w =
     (if wid \<in> set (simWires w)
      then PhysicsEngine_removeWire wid (w\<lparr>simWires := remove1 wid (simWires w)\<rparr>)
      else w)"

definition CircuitSimulator_clear :: "World \<Rightarrow> World" where
  "CircuitSimulator_clear w =
     (PhysicsEngine_clear (w\<lparr>simComponents := [], simWires := []\<rparr>))\<lparr>nextNodeId := resetNodeCounter\<rparr>"

text \<open>An empty simulator; \<open>h\<close> and \<open>wo\<close> are the objects the caller has allocated.\<close>

definition newWorld :: "(nat \<Rightarrow> Component) \<Rightarrow> (nat \<Rightarrow> Wire) \<Rightarrow> World" where
  "newWorld h wo =
     \<lparr>componentObjects = h, wireObjects = wo, engineComponents = [], engineWires = [],
      nodes = [], accumulator = 0, simComponents = [], simWires = [], nextNodeId = 1\<rparr>"

section \<open>Linear solver: \<open>gaussianElimination\<close>\<close>

text \<open>
  What can go wrong in JavaScript is a branch of the model. Indexing the outer array
  out of range gives \<open>undefined\<close>, and reading an element of \<open>undefined\<close> throws a
  \<open>TypeError\<close>. Indexing a row out of range gives \<open>undefined\<close> too, which turns into
  \<open>NaN\<close> in the arithmetic that follows; the reals have no such value, so the model stops
  there with \<open>UndefinedRead\<close>. A result \<open>Inr\<close> thus stands for a run in which nothing was
  thrown and every number read was a stored number.
\<close>

datatype error = TypeError | UndefinedRead

definition andThen :: "'e + 'a \<Rightarrow> ('a \<Rightarrow> 'e + 'b) \<Rightarrow> 'e + 'b" where
  "andThen r f = (case r of Inl e \<Rightarrow> Inl e | Inr x \<Rightarrow> f x)"

text \<open>
  A counting loop \<open>for (let k = a; k < n; k++) body\<close> whose body changes neither \<open>k\<close>
  nor \<open>n\<close> is \<open>forEach body [a..<n]\<close>; it stops at the first error.
\<close>

fun forEach :: "('a \<Rightarrow> 's \<Rightarrow> 'e + 's) \<Rightarrow> 'a list \<Rightarrow> 's \<Rightarrow> 'e + 's" where
  "forEach body [] s = Inr s"
| "forEach body (k # ks) s = (case body k s of Inl e \<Rightarrow> Inl e | Inr s' \<Rightarrow> forEach body ks s')"

text \<open>\<open>augmented[k][j]\<close>\<close>

definition entry :: "real list list \<Rightarrow> nat \<Rightarrow> nat \<Rightarrow> error + real" where
  "entry M k j =
     (if k < length M
      then (if j < length (M ! k) then Inr (M ! k ! j) else Inl UndefinedRead)
      else Inl TypeError)"

definition tolerance :: real where
  "tolerance = 1 / 10 ^ 10"

text \<open>
  \<open>A.map((row, i) => [...row, b[i]])\<close>. Where \<open>b\<close> is shorter than \<open>A\<close> the appended
  element is \<open>undefined\<close>; reading it is the same as reading past the end of the row, so
  the model appends nothing there.
\<close>

definition augment :: "real list list \<Rightarrow> real list \<Rightarrow> real list list" where
  "augment A b =
     map (\<lambda>(row, i). row @ (if i < length b then [b ! i] else [])) (zip A [0..<length A])"

text \<open>The search for the pivot row: \<open>maxRow\<close> starts at \<open>i\<close>.\<close>

definition findPivot :: "real list list \<Rightarrow> nat \<Rightarrow> nat \<Rightarrow> error + nat" where
  "findPivot aug n i =
     forEach (\<lambda>k maxRow.
        andThen (entry aug k i) (\<lambda>a.
        andThen (entry aug maxRow i) (\<lambda>m.
        Inr (if \<bar>a\<bar> > \<bar>m\<bar> then k else maxRow))))
       [i + 1..<n] i"

text \<open>
  \<open>[augmented[i], augmented[maxRow]] = [augmented[maxRow], augmented[i]]\<close>. With \<open>i\<close>
  past the end of the array JavaScript stores \<open>undefined\<close> at \<open>i\<close>; here the update does
  nothing then, and in both cases the read of \<open>augmented[i][i]\<close> that follows fails.
\<close>

definition swapRows :: "real list list \<Rightarrow> nat \<Rightarrow> nat \<Rightarrow> real list list" where
  "swapRows aug i maxRow = (aug[i := aug ! maxRow])[maxRow := aug ! i]"

text \<open>\<open>augmented[k][j] -= factor * augmented[i][j]\<close>\<close>

definition subtractScaled :: "real \<Rightarrow> nat \<Rightarrow> nat \<Rightarrow> nat \<Rightarrow> real list list \<Rightarrow> error + real list list" where
  "subtractScaled factor i k j aug =
     andThen (entry aug k j) (\<lambda>akj.
     andThen (entry aug i j) (\<lambda>aij.
     Inr (aug[k := (aug ! k)[j := akj - factor * aij]])))"

text \<open>The body of the loop over the rows \<open>k\<close> below the pivot row.\<close>

definition eliminateRow :: "nat \<Rightarrow> nat \<Rightarrow> nat \<Rightarrow> real list list \<Rightarrow> error + real list list" where
  "eliminateRow n i k aug =
     andThen (entry aug k i) (\<lambda>aki.
     andThen (entry aug i i) (\<lambda>aii.
     forEach (subtractScaled (aki / aii) i k) [i..<n + 1] aug))"

text \<open>One iteration of the forward elimination, with its \<open>continue\<close>.\<close>

definition forwardStep :: "nat \<Rightarrow> nat \<Rightarrow> real list list \<Rightarrow> error + real list list" where
  "forwardStep n i aug =
     andThen (findPivot aug n i) (\<lambda>maxRow.
     let aug1 = swapRows aug i maxRow in
     andThen (entry aug1 i i) (\<lambda>pivot.
     if \<bar>pivot\<bar> < tolerance then Inr aug1
     else forEach (eliminateRow n i) [i + 1..<n] aug1))"

text \<open>
  The pivot of iteration \<open>i\<close>: the number the test \<open>Math.abs(augmented[i][i]) < 1e-10\<close>
  reads, after the swap, when the iteration starts from \<open>aug\<close>.
\<close>

definition pivotAt :: "nat \<Rightarrow> nat \<Rightarrow> real list list \<Rightarrow> error + real" where
  "pivotAt n i aug =
     andThen (findPivot aug n i) (\<lambda>maxRow. entry (swapRows aug i maxRow) i i)"

definition forwardElimination :: "nat \<Rightarrow> real list list \<Rightarrow> error + real list list" where
  "forwardElimination n aug = forEach (forwardStep n) [0..<n] aug"

text \<open>\<open>x[i] -= augmented[i][j] * x[j]\<close>; \<open>x\<close> has \<open>n\<close> elements and \<open>i, j < n\<close>.\<close>

definition subtractKnown :: "real list list \<Rightarrow> nat \<Rightarrow> nat \<Rightarrow> real list \<Rightarrow> error + real list" where
  "subtractKnown aug i j x =
     andThen (entry aug i j) (\<lambda>aij. Inr (x[i := x ! i - aij * x ! j]))"

text \<open>One iteration of the back substitution, with its \<open>continue\<close>.\<close>

definition backStep :: "real list list \<Rightarrow> nat \<Rightarrow> nat \<Rightarrow> real list \<Rightarrow> error + real list" where
  "backStep aug n i x =
     andThen (entry aug i i) (\<lambda>d.
     if \<bar>d\<bar> < tolerance then Inr (x[i := 0])
     else
       andThen (entry aug i n) (\<lambda>rhs.
       andThen (forEach (subtractKnown aug i) [i + 1..<n] (x[i := rhs])) (\<lambda>x1.
       andThen (entry aug i i) (\<lambda>d1.
       Inr (x1[i := x1 ! i / d1])))))"

text \<open>\<open>for (let i = n - 1; i >= 0; i--)\<close> visits \<open>n - 1, ..., 0\<close>.\<close>

definition backSubstitution :: "real list list \<Rightarrow> nat \<Rightarrow> error + real list" where
  "backSubstitution aug n = forEach (backStep aug n) (rev [0..<n]) (replicate n 0)"

text \<open>The result is \<open>None\<close> for \<open>null\<close>.\<close>

definition gaussianElimination :: "real list list \<Rightarrow> real list \<Rightarrow> error + real list option" where
  "gaussianElimination A b =
     (let n = length b in
      if n = 0 then Inr None
      else
        andThen (forwardElimination n (augment A b)) (\<lambda>aug.
        andThen (backSubstitution aug n) (\<lambda>x.
        Inr (Some x))))"

section \<open>The linear solver on shared arrays\<close>

text \<open>
  In JavaScript \<open>A\<close>, its rows and \<open>b\<close> are arrays passed by reference, and whether the
  solver changes them depends on which arrays it writes to. Here the arrays live in a
  memory: \<open>numArrays\<close> holds the arrays of numbers and \<open>rowArrays\<close> the arrays of rows
  (each row the address of an array of numbers), an address being the position in the
  list. \<open>new\<close> arrays are appended. The solver is \<open>gaussianElimination\<close> again, statement
  by statement, with every read and write of \<open>augmented\<close> and \<open>x\<close> going through the memory.
  An exception comes with the memory as it was when thrown.
\<close>

record Memory =
  numArrays :: "real list list"
  rowArrays :: "nat list list"

definition atMemory :: "Memory \<Rightarrow> error + 'a \<Rightarrow> error \<times> Memory + 'a" where
  "atMemory m r = (case r of Inl e \<Rightarrow> Inl (e, m) | Inr x \<Rightarrow> Inr x)"

text \<open>\<open>augmented[k][j]\<close>, read and written.\<close>

definition readEntry :: "Memory \<Rightarrow> nat \<Rightarrow> nat \<Rightarrow> nat \<Rightarrow> error + real" where
  "readEntry m aug k j =
     (if k < length (rowArrays m ! aug)
      then (if j < length (numArrays m ! (rowArrays m ! aug ! k))
            then Inr (numArrays m ! (rowArrays m ! aug ! k) ! j)
            else Inl UndefinedRead)
      else Inl TypeError)"

definition writeEntry :: "nat \<Rightarrow> nat \<Rightarrow> nat \<Rightarrow> real \<Rightarrow> Memory \<Rightarrow> Memory" where
  "writeEntry aug k j v m =
     m\<lparr>numArrays :=
         (numArrays m)[rowArrays m ! aug ! k := (numArrays m ! (rowArrays m ! aug ! k))[j := v]]\<rparr>"

text \<open>
  \<open>A.map((row, i) => [...row, b[i]])\<close>: the spread copies the elements of \<open>row\<close> into a
  new array, and \<open>map\<close> collects the new arrays in a new outer array.
\<close>

definition copyRow :: "nat \<Rightarrow> nat \<times> nat \<Rightarrow> nat list \<times> Memory \<Rightarrow> nat list \<times> Memory" where
  "copyRow b ri s =
     (let m = snd s;
          row = numArrays m ! fst ri;
          i = snd ri;
          fresh = row @ (if i < length (numArrays m ! b) then [numArrays m ! b ! i] else [])
      in (fst s @ [length (numArrays m)], m\<lparr>numArrays := numArrays m @ [fresh]\<rparr>))"

definition augmentInMemory :: "nat \<Rightarrow> nat \<Rightarrow> Memory \<Rightarrow> nat \<times> Memory" where
  "augmentInMemory A b m =
     (let rows = rowArrays m ! A;
          copied = fold (copyRow b) (zip rows [0..<length rows]) ([], m)
      in (length (rowArrays (snd copied)),
          (snd copied)\<lparr>rowArrays := rowArrays (snd copied) @ [fst copied]\<rparr>))"

definition findPivotInMemory :: "Memory \<Rightarrow> nat \<Rightarrow> nat \<Rightarrow> nat \<Rightarrow> error + nat" where
  "findPivotInMemory m aug n i =
     forEach (\<lambda>k maxRow.
        andThen (readEntry m aug k i) (\<lambda>a.
        andThen (readEntry m aug maxRow i) (\<lambda>mx.
        Inr (if \<bar>a\<bar> > \<bar>mx\<bar> then k else maxRow))))
       [i + 1..<n] i"

definition swapRowsInMemory :: "nat \<Rightarrow> nat \<Rightarrow> nat \<Rightarrow> Memory \<Rightarrow> Memory" where
  "swapRowsInMemory aug i maxRow m =
     m\<lparr>rowArrays :=
         (rowArrays m)[aug := ((rowArrays m ! aug)[i := rowArrays m ! aug ! maxRow])
                                [maxRow := rowArrays m ! aug ! i]]\<rparr>"

definition subtractScaledInMemory :: "real \<Rightarrow> nat \<Rightarrow> nat \<Rightarrow> nat \<Rightarrow> nat \<Rightarrow> Memory \<Rightarrow> error \<times> Memory + Memory" where
  "subtractScaledInMemory factor aug i k j m =
     andThen (atMemory m (readEntry m aug k j)) (\<lambda>akj.
     andThen (atMemory m (readEntry m aug i j)) (\<lambda>aij.
     Inr (writeEntry aug k j (akj - factor * aij) m)))"

definition eliminateRowInMemory :: "nat \<Rightarrow> nat \<Rightarrow> nat \<Rightarrow> nat \<Rightarrow> Memory \<Rightarrow> error \<times> Memory + Memory" where
  "eliminateRowInMemory aug n i k m =
     andThen (atMemory m (readEntry m aug k i)) (\<lambda>aki.
     andThen (atMemory m (readEntry m aug i i)) (\<lambda>aii.
     forEach (subtractScaledInMemory (aki / aii) aug i k) [i..<n + 1] m))"

definition forwardStepInMemory :: "nat \<Rightarrow> nat \<Rightarrow> nat \<Rightarrow> Memory \<Rightarrow> error \<times> Memory + Memory" where
  "forwardStepInMemory aug n i m =
     andThen (atMemory m (findPivotInMemory m aug n i)) (\<lambda>maxRow.
     let m1 = swapRowsInMemory aug i maxRow m in
     andThen (atMemory m1 (readEntry m1 aug i i)) (\<lambda>pivot.
     if \<bar>pivot\<bar> < tolerance then Inr m1
     else forEach (eliminateRowInMemory aug n i) [i + 1..<n] m1))"

text \<open>\<open>x[i] = v\<close> for the array at address \<open>x\<close>.\<close>

definition setElement :: "nat \<Rightarrow> nat \<Rightarrow> real \<Rightarrow> Memory \<Rightarrow> Memory" where
  "setElement x i v m = m\<lparr>numArrays := (numArrays m)[x := (numArrays m ! x)[i := v]]\<rparr>"

definition subtractKnownInMemory :: "nat \<Rightarrow> nat \<Rightarrow> nat \<Rightarrow> nat \<Rightarrow> Memory \<Rightarrow> error \<times> Memory + Memory" where
  "subtractKnownInMemory aug x i j m =
     andThen (atMemory m (readEntry m aug i j)) (\<lambda>aij.
     Inr (setElement x i (numArrays m ! x ! i - aij * numArrays m ! x ! j) m))"

definition backStepInMemory :: "nat \<Rightarrow> nat \<Rightarrow> nat \<Rightarrow> nat \<Rightarrow> Memory \<Rightarrow> error \<times> Memory + Memory" where
  "backStepInMemory aug x n i m =
     andThen (atMemory m (readEntry m aug i i)) (\<lambda>d.
     if \<bar>d\<bar> < tolerance then Inr (setElement x i 0 m)
     else
       andThen (atMemory m (readEntry m aug i n)) (\<lambda>rhs.
       andThen (forEach (subtractKnownInMemory aug x i) [i + 1..<n] (setElement x i rhs m)) (\<lambda>m1.
       andThen (atMemory m1 (readEntry m1 aug i i)) (\<lambda>d1.
       Inr (setElement x i (numArrays m1 ! x ! i / d1) m1)))))"

text \<open>The result is the address of the new array \<open>x\<close>, or \<open>None\<close> for \<open>null\<close>.\<close>

definition gaussianEliminationInMemory :: "nat \<Rightarrow> nat \<Rightarrow> Memory \<Rightarrow> error \<times> Memory + nat option \<times> Memory" where
  "gaussianEliminationInMemory A b m =
     (let n = length (numArrays m ! b) in
      if n = 0 then Inr (None, m)
      else
        (let aug = fst (augmentInMemory A b m);
             m1 = snd (augmentInMemory A b m)
         in andThen (forEach (forwardStepInMemory aug n) [0..<n] m1) (\<lambda>m2.
            let x = length (numArrays m2);
                m3 = m2\<lparr>numArrays := numArrays m2 @ [replicate n 0]\<rparr>
            in andThen (forEach (backStepInMemory aug x n) (rev [0..<n]) m3) (\<lambda>m4.
               Inr (Some x, m4)))))"

text \<open>The memory when the call ends, by a return or by an exception.\<close>

definition memoryAfter :: "error \<times> Memory + 'a \<times> Memory \<Rightarrow> Memory" where
  "memoryAfter r = (case r of Inl (e, m) \<Rightarrow> m | Inr (v, m) \<Rightarrow> m)"

section \<open>Matrix assembly: \<open>buildConductanceMatrix\<close>\<close>

definition countVoltageSources :: "World \<Rightarrow> nat" where
  "countVoltageSources w =
     length (filter (\<lambda>c. getVoltage (componentObjects w c) \<noteq> 0) (engineComponents w))"

text \<open>
  The local \<open>nodeMap\<close>: the keys of \<open>this.nodes\<close> other than the ground node, numbered
  in insertion order. The pair is (\<open>nodeIndex\<close>, \<open>nodeMap\<close>).
\<close>

definition numberNode :: "nat \<Rightarrow> nat \<times> (nat \<rightharpoonup> nat) \<Rightarrow> nat \<times> (nat \<rightharpoonup> nat)" where
  "numberNode ident s =
     (if ident \<noteq> groundNode then (fst s + 1, (snd s)(ident \<mapsto> fst s)) else s)"

definition buildNodeMap :: "(nat \<times> CircuitNode) list \<Rightarrow> nat \<times> (nat \<rightharpoonup> nat)" where
  "buildNodeMap ns = fold numberNode (map fst ns) (0, Map.empty)"

text \<open>
  \<open>G[i][j] += d\<close>. The indices come out of \<open>nodeMap\<close>, so they are below the number of
  keys of \<open>this.nodes\<close> and inside the matrix (lemma \<open>buildNodeMap_bound\<close> below).
\<close>

definition addAt :: "nat \<Rightarrow> nat \<Rightarrow> real \<Rightarrow> real list list \<Rightarrow> real list list" where
  "addAt i j d G = G[i := (G ! i)[j := G ! i ! j + d]]"

text \<open>The body of the loop over \<open>this.components\<close>; the pair is (\<open>G\<close>, \<open>b\<close>).\<close>

definition stampComponent :: "(nat \<rightharpoonup> nat) \<Rightarrow> Component \<Rightarrow> real list list \<times> real list \<Rightarrow> real list list \<times> real list" where
  "stampComponent nodeMap c Gb =
     (if length (terminals c) = 2 then
        (let res = getResistance c;
             v = getVoltage c;
             n1 = nodeMap (node (terminals c ! 0));
             n2 = nodeMap (node (terminals c ! 1));
             G1 = (if positive res then
                     (case n1 of None \<Rightarrow> fst Gb
                      | Some i \<Rightarrow>
                         (case n2 of None \<Rightarrow> fst Gb
                          | Some j \<Rightarrow>
                             addAt j j (reciprocal res)
                               (addAt j i (- reciprocal res)
                                 (addAt i j (- reciprocal res)
                                   (addAt i i (reciprocal res) (fst Gb))))))
                   else fst Gb);
             b1 = (if v \<noteq> 0 then
                     (let b' = (case n1 of None \<Rightarrow> snd Gb
                                | Some i \<Rightarrow> (snd Gb)[i := snd Gb ! i + dividedBy v (orOne res)])
                      in case n2 of None \<Rightarrow> b'
                         | Some j \<Rightarrow> b'[j := b' ! j - dividedBy v (orOne res)])
                   else snd Gb)
         in (G1, b1))
      else Gb)"

definition buildConductanceMatrix :: "World \<Rightarrow> real list list \<times> real list \<Rightarrow> real list list \<times> real list" where
  "buildConductanceMatrix w Gb =
     fold (\<lambda>c. stampComponent (snd (buildNodeMap (nodes w))) (componentObjects w c))
       (engineComponents w) Gb"

section \<open>Simulation driver\<close>

text \<open>The loop that stores the solution in the node records; \<open>k\<close> is \<open>nodeIndex\<close>.\<close>

fun applySolution :: "real list \<Rightarrow> nat \<Rightarrow> (nat \<times> CircuitNode) list \<Rightarrow> (nat \<times> CircuitNode) list" where
  "applySolution x k [] = []"
| "applySolution x k ((ident, nd) # rest) =
     (if ident \<noteq> groundNode \<and> k < length x
      then (ident, nd\<lparr>nodeVoltage := x ! k\<rparr>) # applySolution x (k + 1) rest
      else (ident, nd) # applySolution x k rest)"

text \<open>\<open>terminal.current = i\<close> for the terminal \<open>k\<close> of the component at address \<open>c\<close>.\<close>

definition setCurrentAt :: "nat \<Rightarrow> nat \<Rightarrow> real \<Rightarrow> (nat \<Rightarrow> Component) \<Rightarrow> (nat \<Rightarrow> Component)" where
  "setCurrentAt c k i h =
     h(c := (h c)\<lparr>terminals := (terminals (h c))[k := (terminals (h c) ! k)\<lparr>current := i\<rparr>]\<rparr>)"

text \<open>
  The body of the loop of \<open>updateComponentValues\<close>. Its parameter \<open>_solution\<close> is not
  read: the currents are computed from the voltages the terminals already hold.
\<close>

definition updateWire :: "nat \<Rightarrow> World \<Rightarrow> World" where
  "updateWire wid w =
     (let wr = wireObjects w wid in
      case getTerminal (componentObjects w (startComponent wr)) (startTerminal wr) of
        None \<Rightarrow> w
      | Some startTerm \<Rightarrow>
          (case getTerminal (componentObjects w (endComponent wr)) (endTerminal wr) of
             None \<Rightarrow> w
           | Some endTerm \<Rightarrow>
               (let voltageDiff = voltage startTerm - voltage endTerm;
                    i = voltageDiff / wireResistance wr
                in w\<lparr>wireObjects := (wireObjects w)(wid := wr\<lparr>wireCurrent := i\<rparr>),
                     componentObjects :=
                       setCurrentAt (endComponent wr) (endTerminal wr) (- i)
                         (setCurrentAt (startComponent wr) (startTerminal wr) i
                            (componentObjects w))\<rparr>)))"

definition updateComponentValues :: "real list \<Rightarrow> World \<Rightarrow> World" where
  "updateComponentValues solution w = fold updateWire (engineWires w) w"

definition matrixSize :: "World \<Rightarrow> nat" where
  "matrixSize w = length (nodes w) + countVoltageSources w"

text \<open>\<open>G\<close> and \<open>b\<close> as \<open>solveCircuit\<close> passes them to the solver.\<close>

definition assembled :: "World \<Rightarrow> real list list \<times> real list" where
  "assembled w =
     buildConductanceMatrix w
       (replicate (matrixSize w) (replicate (matrixSize w) 0), replicate (matrixSize w) 0)"

definition solveCircuit :: "World \<Rightarrow> error + World" where
  "solveCircuit w =
     (if matrixSize w = 0 then Inr w
      else
        andThen (gaussianElimination (fst (assembled w)) (snd (assembled w))) (\<lambda>r.
        case r of
          None \<Rightarrow> Inr w
        | Some x \<Rightarrow> Inr (updateComponentValues x (w\<lparr>nodes := applySolution x 0 (nodes w)\<rparr>))))"

definition simulate :: "World \<Rightarrow> error + World" where
  "simulate w = (if engineComponents w = [] then Inr w else solveCircuit w)"

text \<open>
  The fixed-timestep loop of \<open>PhysicsEngine.update\<close>. \<open>simulate\<close> does not write the
  accumulator, so the loop carries it beside the state and stores it when it ends.
\<close>

function simulateSteps :: "real \<Rightarrow> World \<Rightarrow> error + World" where
  "simulateSteps acc w =
     (if acc \<ge> timeStep
      then (case simulate w of Inl e \<Rightarrow> Inl e | Inr w1 \<Rightarrow> simulateSteps (acc - timeStep) w1)
      else Inr (w\<lparr>accumulator := acc\<rparr>))"
  by pat_completeness auto
termination
proof (relation "measure (\<lambda>(acc, w). nat \<lceil>acc * 1000\<rceil>)")
  show "wf (measure (\<lambda>(acc, w). nat \<lceil>acc * 1000\<rceil>))" by simp
next
  fix acc :: real and w w1 :: World
  assume "timeStep \<le> acc"
  then have "1 \<le> acc * 1000" by (simp add: timeStep_def)
  then have "1 \<le> \<lceil>acc * 1000\<rceil>" by linarith
  moreover have "\<lceil>(acc - timeStep) * 1000\<rceil> = \<lceil>acc * 1000\<rceil> - 1"
    by (simp add: timeStep_def algebra_simps)
  ultimately show "((acc - timeStep, w1), (acc, w)) \<in> measure (\<lambda>(acc, w). nat \<lceil>acc * 1000\<rceil>)"
    by simp
qed

text \<open>The loop over \<open>this.components\<close> that ends \<open>PhysicsEngine.update\<close>.\<close>

definition updateComponents :: "real \<Rightarrow> World \<Rightarrow> World" where
  "updateComponents deltaTime w =
     w\<lparr>componentObjects :=
         fold (\<lambda>c h. h(c := update deltaTime (h c))) (engineComponents w) (componentObjects w)\<rparr>"

definition PhysicsEngine_update :: "real \<Rightarrow> World \<Rightarrow> error + World" where
  "PhysicsEngine_update deltaTime w =
     andThen (simulateSteps (accumulator w + deltaTime) w) (\<lambda>w1.
     Inr (updateComponents deltaTime w1))"

section \<open>Well-formed inputs\<close>

text \<open>
  An augmented matrix of a system with \<open>n\<close> unknowns: \<open>n\<close> rows of \<open>n + 1\<close> numbers.
  This is what \<open>augment A b\<close> is when \<open>A\<close> is \<open>n\<close> by \<open>n\<close> and \<open>b\<close> has \<open>n\<close> elements.
\<close>

definition wfAug :: "nat \<Rightarrow> real list list \<Rightarrow> bool" where
  "wfAug n M = (length M = n \<and> (\<forall>r \<in> set M. length r = Suc n))"


text \<open>
  The node ids held by the terminals of the components in \<open>this.components\<close>, and the
  number of nodes of the partition other than the ground node: the size the
  specification gives for the conductance matrix.
\<close>

definition terminalNodes :: "World \<Rightarrow> nat list" where
  "terminalNodes w =
     concat (map (\<lambda>c. map node (terminals (componentObjects w c))) (engineComponents w))"

definition nonGroundNodeCount :: "World \<Rightarrow> nat" where
  "nonGroundNodeCount w = card (set (terminalNodes w) - {groundNode})"










text \<open>A wire both of whose components are in the list \<open>cs\<close>.\<close>

definition wireAttached :: "nat list \<Rightarrow> Wire \<Rightarrow> bool" where
  "wireAttached cs wr = (startComponent wr \<in> set cs \<and> endComponent wr \<in> set cs)"

text \<open>
  The partition of the terminals into nodes: two terminals, each named by the address of
  its component and its index, are in the same node when they hold the same node id.
\<close>

definition sameNode :: "World \<Rightarrow> nat \<times> nat \<Rightarrow> nat \<times> nat \<Rightarrow> bool" where
  "sameNode w s t =
     (node (terminals (componentObjects w (fst s)) ! snd s)
        = node (terminals (componentObjects w (fst t)) ! snd t))"

text \<open>
  For the proofs about \<open>rebuildCircuit\<close>: the renaming of node ids one merge performs, a
  renaming applied to every terminal of the listed components, and a wire whose two
  terminals (if it has both) already hold the same node id.
\<close>

definition rename :: "nat \<Rightarrow> nat \<Rightarrow> nat \<Rightarrow> nat" where
  "rename maxNode minNode v = (if v = maxNode then minNode else v)"

definition renameAll :: "nat list \<Rightarrow> (nat \<Rightarrow> nat) \<Rightarrow> (nat \<Rightarrow> Component) \<Rightarrow> (nat \<Rightarrow> Component)" where
  "renameAll cs f h =
     (\<lambda>c. if c \<in> set cs
          then (h c)\<lparr>terminals := map (\<lambda>t. t\<lparr>node := f (node t)\<rparr>) (terminals (h c))\<rparr>
          else h c)"

definition joined :: "(nat \<Rightarrow> Component) \<Rightarrow> Wire \<Rightarrow> bool" where
  "joined h wr =
     (case getTerminal (h (startComponent wr)) (startTerminal wr) of
        None \<Rightarrow> True
      | Some s \<Rightarrow>
          (case getTerminal (h (endComponent wr)) (endTerminal wr) of
             None \<Rightarrow> True
           | Some e \<Rightarrow> node s = node e))"

text \<open>
  For the proof that the solver leaves its arguments alone: \<open>m\<close> extends \<open>m0\<close> when every
  array of \<open>m0\<close> is in \<open>m\<close> at the same address with the same elements; the array of rows
  at \<open>aug\<close> is owned when it and all its rows were allocated after \<open>m0\<close>.
\<close>

definition extends :: "Memory \<Rightarrow> Memory \<Rightarrow> bool" where
  "extends m0 m =
     (take (length (numArrays m0)) (numArrays m) = numArrays m0
      \<and> take (length (rowArrays m0)) (rowArrays m) = rowArrays m0)"

definition owned :: "Memory \<Rightarrow> nat \<Rightarrow> Memory \<Rightarrow> bool" where
  "owned m0 aug m =
     (extends m0 m \<and> length (rowArrays m0) \<le> aug \<and> aug < length (rowArrays m)
      \<and> (\<forall>ra \<in> set (rowArrays m ! aug). length (numArrays m0) \<le> ra))"

definition ownedResult :: "Memory \<Rightarrow> nat \<Rightarrow> nat \<Rightarrow> Memory \<Rightarrow> bool" where
  "ownedResult m0 aug x m = (owned m0 aug m \<and> length (numArrays m0) \<le> x)"

definition inEither :: "(Memory \<Rightarrow> bool) \<Rightarrow> error \<times> Memory + Memory \<Rightarrow> bool" where
  "inEither P r = (case r of Inl (e, m) \<Rightarrow> P m | Inr m \<Rightarrow> P m)"

text \<open>The matrix that the array of row addresses \<open>aug\<close> denotes in a memory, and
  the conditions under which it is a matrix of its own: the rows are distinct
  allocated arrays. \<open>agrees\<close> relates a run on values with a run on the memory:
  both throw the same error, or both return and the results are related.\<close>

definition loaded :: "Memory \<Rightarrow> nat \<Rightarrow> real list list" where
  "loaded m aug = map (\<lambda>ra. numArrays m ! ra) (rowArrays m ! aug)"

definition sound :: "Memory \<Rightarrow> nat \<Rightarrow> bool" where
  "sound m aug =
     (aug < length (rowArrays m) \<and> distinct (rowArrays m ! aug)
      \<and> (\<forall>ra \<in> set (rowArrays m ! aug). ra < length (numArrays m)))"

definition agrees :: "('s \<Rightarrow> Memory \<Rightarrow> bool) \<Rightarrow> error + 's \<Rightarrow> error \<times> Memory + Memory \<Rightarrow> bool" where
  "agrees R r rm =
     (case r of
        Inl e \<Rightarrow> (\<exists>m'. rm = Inl (e, m'))
      | Inr s \<Rightarrow> (\<exists>m'. rm = Inr m' \<and> R s m'))"

definition holds :: "nat \<Rightarrow> real list list \<Rightarrow> Memory \<Rightarrow> bool" where
  "holds aug M m = (sound m aug \<and> loaded m aug = M)"

definition holdsResult :: "nat \<Rightarrow> real list list \<Rightarrow> nat \<Rightarrow> real list \<Rightarrow> Memory \<Rightarrow> bool" where
  "holdsResult aug M xa x m =
     (holds aug M m \<and> xa < length (numArrays m) \<and> xa \<notin> set (rowArrays m ! aug)
      \<and> numArrays m ! xa = x)"

section \<open>Example devices and circuits\<close>

text \<open>A 9 V battery whose burned-out flag has been set.\<close>

definition burnedBattery :: Component where
  "burnedBattery = (Battery_new 9 0 0)\<lparr>isBurned := True\<rparr>"

text \<open>A 1 k\<Omega> resistor whose burned-out flag has been set.\<close>

definition burnedResistor :: Component where
  "burnedResistor = (Resistor_new 1000 0 0)\<lparr>isBurned := True\<rparr>"

text \<open>A red LED with 2.2 V across its terminals.\<close>

definition litLED :: Component where
  "litLED =
     (LED_new 2 0 0)\<lparr>terminals :=
        [\<lparr>node = 0, voltage = 2.2, current = 0\<rparr>, \<lparr>node = 1, voltage = 0, current = 0\<rparr>]\<rparr>"

text \<open>
  A red LED with 12 V across its terminals: the diode law \<open>(V - 2.0) / 10\<close> gives 1 A, more
  than thirty times the rated 30 mA.
\<close>

definition overdrivenLED :: Component where
  "overdrivenLED =
     (LED_new 2 0 0)\<lparr>terminals :=
        [\<lparr>node = 0, voltage = 12, current = 0\<rparr>, \<lparr>node = 1, voltage = 0, current = 0\<rparr>]\<rparr>"

text \<open>A 100 \<mu>F capacitor holding 1 mC, with 1 V across its terminals.\<close>

definition chargedCapacitor :: Component where
  "chargedCapacitor =
     (Capacitor_new 0.0001 0 0)\<lparr>terminals :=
        [\<lparr>node = 0, voltage = 1, current = 0\<rparr>, \<lparr>node = 1, voltage = 0, current = 0\<rparr>],
       variant := Capacitor \<lparr>capacitance = 0.0001, charge = 0.001, maxVoltage = 25, esr = 0.1\<rparr>\<rparr>"

text \<open>
  A resistor whose two calls of \<open>Math.random()\<close> returned 0.5 and 0.5000001.
\<close>

definition twinResistor :: Component where
  "twinResistor = Resistor_new 1000 (1 / 2) (1 / 2 + 1 / 10 ^ 7)"

text \<open>
  A simulator holding one 9 V battery (node ids 5 and 8) and nothing else, and the same
  simulator after one simulation step.
\<close>

definition batteryOnly :: World where
  "batteryOnly =
     CircuitSimulator_addComponent 0
       (newWorld (\<lambda>_. Battery_new 9 0.000005 0.000008) (\<lambda>_. Wire_new 0 0 0 0))"

definition batterySolved :: World where
  "batterySolved =
     batteryOnly\<lparr>nodes := [(5, \<lparr>nodeId = 5, nodeVoltage = 9, nodeComponents = []\<rparr>),
                          (8, \<lparr>nodeId = 8, nodeVoltage = 0, nodeComponents = []\<rparr>)],
                 accumulator := 0\<rparr>"



text \<open>
  A battery at address 0 and a resistor at address 1, added to a new simulator and then
  joined by the wire at address 0, which runs from terminal 1 of the battery to
  terminal 0 of the resistor.
\<close>

definition twoParts :: "nat \<Rightarrow> Component" where
  "twoParts = (\<lambda>_. Battery_new 9 0.000005 0.000008)(1 := Resistor_new 1000 0.000003 0.000007)"

definition wiredPair :: World where
  "wiredPair =
     CircuitSimulator_addWire 0
       (CircuitSimulator_addComponent 1
         (CircuitSimulator_addComponent 0 (newWorld twoParts (\<lambda>_. Wire_new 0 1 1 0))))"

text \<open>
  Three resistors whose first terminals hold the node ids 7, 3 and 5, and two wires from
  the first terminals of resistors 0 and 1 to the first terminal of resistor 2. In
  \<open>threeListed\<close> the engine holds all three resistors; in \<open>looseEnd\<close> resistor 2 has been
  removed from the engine again.
\<close>

definition threeParts :: "nat \<Rightarrow> Component" where
  "threeParts =
     (\<lambda>_. Resistor_new 1000 0.000005 0.0003)
       (0 := Resistor_new 1000 0.000007 0.0001, 1 := Resistor_new 1000 0.000003 0.0002)"

definition twoWires :: "nat \<Rightarrow> Wire" where
  "twoWires = (\<lambda>_. Wire_new 1 0 2 0)(0 := Wire_new 0 0 2 0)"

definition threeListed :: World where
  "threeListed =
     PhysicsEngine_addComponent 2
       (PhysicsEngine_addComponent 1
         (PhysicsEngine_addComponent 0 (newWorld threeParts twoWires)))"

definition looseEnd :: World where
  "looseEnd = PhysicsEngine_removeComponent 2 threeListed"

text \<open>
  A memory holding the system \<open>2x + y = 3\<close>, \<open>x + 3y = 5\<close>: the rows at addresses 0 and 1,
  \<open>b\<close> at address 2, and the matrix \<open>A\<close> at address 0 of the arrays of rows.
\<close>

definition sampleMemory :: Memory where
  "sampleMemory = \<lparr>numArrays = [[2, 1], [1, 3], [3, 5]], rowArrays = [[0, 1]]\<rparr>"

section \<open>Properties of the component models\<close>

lemma updateTemperature_fields:
  "variant (updateTemperature dt c) = variant c"
  "terminals (updateTemperature dt c) = terminals c"
  "maxTemperature (updateTemperature dt c) = maxTemperature c"
  "isBurned (updateTemperature dt c) =
     (isBurned c \<or> temperature (updateTemperature dt c) > maxTemperature c)"
  by (auto simp: updateTemperature_def Let_def)

lemma setTerminalCurrents_fields:
  "variant (setTerminalCurrents i c) = variant c"
  "isBurned (setTerminalCurrents i c) = isBurned c"
  "temperature (setTerminalCurrents i c) = temperature c"
  "maxTemperature (setTerminalCurrents i c) = maxTemperature c"
  "length (terminals (setTerminalCurrents i c)) = length (terminals c)"
  by (auto simp: setTerminalCurrents_def)

lemma addAt_zero: "addAt i j 0 G = G"
  by (simp add: addAt_def)

subsection \<open>Burned-out components\<close>

text \<open>
  C3, as stated, fails: a burned-out battery still reports its internal resistance of
  0.1 \<Omega>, a finite value whose conductance 10 S goes into the matrix.
\<close>

theorem burned_battery_conducts:
  "isBurned burnedBattery
   \<and> getResistance burnedBattery = Ohms (1 / 10)
   \<and> getResistance burnedBattery \<noteq> Infinity
   \<and> positive (getResistance burnedBattery)
   \<and> reciprocal (getResistance burnedBattery) = 10"
  by (simp add: burnedBattery_def Battery_new_def getResistance_def Battery_getResistance_def
      reciprocal_def positive_def)

text \<open>
  C3, amended: a burned-out resistor, LED or motor reports the resistance \<open>Infinity\<close>, and
  its stamp leaves the conductance matrix as it was. A battery, a capacitor and a switch
  report their internal resistance, their ESR and their open or closed resistance
  whether burned out or not.
\<close>

theorem burned_resistance:
  "(isBurned c \<and> getType c \<in> {RESISTOR, LED, MOTOR} \<longrightarrow>
      getResistance c = Infinity \<and> reciprocal (getResistance c) = 0
      \<and> fst (stampComponent nodeMap c (G, b)) = G)
   \<and> (\<forall>f. variant c = Battery f \<longrightarrow> getResistance c = Ohms (internalResistance f))
   \<and> (\<forall>f. variant c = Capacitor f \<longrightarrow> getResistance c = Ohms (esr f))
   \<and> (\<forall>f. variant c = Switch f \<longrightarrow>
        getResistance c = Ohms (if isOpen f then openResistance f else closedResistance f))"
  by (auto simp: getType_def getResistance_def Resistor_getResistance_def LED_getResistance_def
      Motor_getResistance_def Battery_getResistance_def Capacitor_getResistance_def
      Switch_getResistance_def stampComponent_def Let_def reciprocal_def addAt_zero positive_def
      split: Variant.splits option.splits)

theorem burned_resistance_witness:
  "isBurned burnedResistor \<and> getType burnedResistor = RESISTOR
   \<and> getResistance burnedResistor = Infinity
   \<and> fst (stampComponent (Map.empty(0 \<mapsto> 0)) burnedResistor ([[5]], [0])) = [[5]]"
  using burned_resistance [of burnedResistor "Map.empty(0 \<mapsto> 0)" "[[5]]" "[0]"]
  by (simp add: burnedResistor_def Resistor_new_def getType_def)

subsection \<open>The LED\<close>

text \<open>
  The current an LED reports: nothing below the forward voltage; from the forward voltage
  on, for an LED that is not burned out, \<open>(V - 2.0) / 10\<close> clamped to 1.5 times the rated
  current; never more than that clamp.
\<close>

lemma LED_getCurrent_law:
  assumes "variant c = Led f" and "forwardVoltage f = 2" and "forwardResistance f = 10"
    and "maxCurrent f = 0.03" and "length (terminals c) = 2"
  shows "(getVoltage c < 2 \<longrightarrow> getCurrent c = 0)
       \<and> (\<not> isBurned c \<and> 2 \<le> getVoltage c \<longrightarrow>
            getCurrent c = min ((getVoltage c - 2) / 10) (1.5 * 0.03))
       \<and> getCurrent c \<le> 1.5 * 0.03"
  using assms
  by (auto simp: getVoltage_def getCurrent_def LED_getCurrent_def)

lemma litLED_current:
  "getVoltage litLED = 2.2 \<and> getCurrent litLED = 0.02 \<and> getCurrent litLED \<le> 0.045"
  using LED_getCurrent_law [of litLED "\<lparr>forwardVoltage = 2, forwardResistance = 10,
        reverseResistance = 1000000, maxCurrent = 0.03, brightness = 0\<rparr>"]
  by (simp add: litLED_def LED_new_def getVoltage_def terminalVoltage_def)

text \<open>
  The over-current test of \<open>LED.update\<close>, \<open>current > this.maxCurrent * 2\<close>, reads the value
  \<open>getCurrent()\<close> has already clamped to 1.5 times the rated current, so it is false for
  every LED, and \<open>update\<close> is the same function without it.
\<close>

lemma LED_overcurrent_test_never_passes:
  assumes "0 \<le> maxCurrent f"
  shows "\<not> LED_getCurrent c f > maxCurrent f * 2"
proof -
  have "LED_getCurrent c f \<le> maxCurrent f * 1.5"
    using assms by (auto simp: LED_getCurrent_def min_def)
  with assms show ?thesis by simp
qed

lemma LED_update_without_overcurrent:
  assumes "0 \<le> maxCurrent f"
  shows "LED_update dt c f =
     (let i = LED_getCurrent c f;
          f1 = (if i > 0 \<and> \<not> isBurned c then f\<lparr>brightness := min (i / maxCurrent f) 1\<rparr>
                else f\<lparr>brightness := 0\<rparr>)
      in setTerminalCurrents i
           (updateTemperature dt (c\<lparr>powerDissipation := terminalVoltage c * i, variant := Led f1\<rparr>)))"
  using LED_overcurrent_test_never_passes [OF assms, of c]
  by (simp add: LED_update_def Let_def)

text \<open>
  An update leaves the voltage across the terminals as it was, and a component whose
  temperature and target temperature are both within its limit does not overheat.
\<close>

lemma terminalVoltage_after_update:
  "terminalVoltage (setTerminalCurrents i c) = terminalVoltage c"
  "terminalVoltage (updateTemperature dt c) = terminalVoltage c"
  by (simp_all add: setTerminalCurrents_def terminalVoltage_def updateTemperature_fields)

lemma updateTemperature_stays_cool:
  assumes "\<not> isBurned c" "temperature c \<le> maxTemperature c"
    and "25 + powerDissipation c * 10 \<le> maxTemperature c" "0 \<le> dt"
  shows "\<not> isBurned (updateTemperature dt c)"
    and "temperature (updateTemperature dt c) \<le> maxTemperature c"
proof -
  let ?a = "1 - exp (- dt / (50 * 10))"
  let ?target = "25 + powerDissipation c * 10"
  have a: "0 \<le> ?a" "?a \<le> 1" using assms(4) by simp_all
  have "temperature c + (?target - temperature c) * ?a
      = (1 - ?a) * temperature c + ?a * ?target" by (simp add: algebra_simps)
  also have "\<dots> \<le> (1 - ?a) * maxTemperature c + ?a * maxTemperature c"
    by (intro add_mono mult_left_mono assms(2,3)) (use a in simp_all)
  also have "\<dots> = maxTemperature c" by (simp add: algebra_simps)
  finally have le: "temperature c + (?target - temperature c) * ?a \<le> maxTemperature c" .
  then show "\<not> isBurned (updateTemperature dt c)"
    "temperature (updateTemperature dt c) \<le> maxTemperature c"
    using assms(1) by (simp_all add: updateTemperature_def Let_def)
qed

lemma overdrivenLED_fields:
  "variant overdrivenLED = Led \<lparr>forwardVoltage = 2, forwardResistance = 10,
        reverseResistance = 1000000, maxCurrent = 0.03, brightness = 0\<rparr>"
  "terminalVoltage overdrivenLED = 12" "length (terminals overdrivenLED) = 2"
  "\<not> isBurned overdrivenLED" "temperature overdrivenLED = 25"
  "maxTemperature overdrivenLED = 125"
  by (simp_all add: overdrivenLED_def LED_new_def terminalVoltage_def)

text \<open>
  C7 fails on the code: the burnout trigger at twice the rated current never fires. A red
  LED under 12 V, for which the diode law gives 1 A where 60 mA is twice the rating,
  reports the clamped 45 mA, and \<open>update\<close> leaves it not burned out and still conducting
  45 mA.
\<close>

theorem overdriven_LED_not_burned:
  "getVoltage overdrivenLED = 12
   \<and> (getVoltage overdrivenLED - 2) / 10 = 1
   \<and> (getVoltage overdrivenLED - 2) / 10 > 2 * 0.03
   \<and> getCurrent overdrivenLED = 0.045
   \<and> \<not> isBurned (update 0.001 overdrivenLED)
   \<and> getCurrent (update 0.001 overdrivenLED) = 0.045"
proof -
  let ?f = "\<lparr>forwardVoltage = 2, forwardResistance = 10,
        reverseResistance = 1000000, maxCurrent = 0.03, brightness = 0\<rparr>"
  let ?c1 = "overdrivenLED\<lparr>powerDissipation := 12 * 0.045,
        variant := Led (?f\<lparr>brightness := 1\<rparr>)\<rparr>"
  have i: "LED_getCurrent overdrivenLED ?f = 0.045"
    by (simp add: LED_getCurrent_def overdrivenLED_fields)
  have upd: "update 0.001 overdrivenLED
      = setTerminalCurrents 0.045 (updateTemperature 0.001 ?c1)"
    unfolding update_def overdrivenLED_fields(1) Variant.case LED_update_def Let_def i
    by (simp add: overdrivenLED_fields)
  have cool: "\<not> isBurned (updateTemperature 0.001 ?c1)"
    by (rule updateTemperature_stays_cool) (simp_all add: overdrivenLED_fields)
  have after: "LED_getCurrent (update 0.001 overdrivenLED) (?f\<lparr>brightness := 1\<rparr>) = 0.045"
  proof -
    have "terminalVoltage (update 0.001 overdrivenLED) = 12"
      "length (terminals (update 0.001 overdrivenLED)) = 2"
      "\<not> isBurned (update 0.001 overdrivenLED)"
    proof -
      have "terminalVoltage ?c1 = terminalVoltage overdrivenLED"
        by (simp add: terminalVoltage_def)
      then show "terminalVoltage (update 0.001 overdrivenLED) = 12"
        unfolding upd by (simp add: terminalVoltage_after_update overdrivenLED_fields)
      show "length (terminals (update 0.001 overdrivenLED)) = 2"
        unfolding upd
        by (simp add: setTerminalCurrents_fields updateTemperature_fields overdrivenLED_fields)
      show "\<not> isBurned (update 0.001 overdrivenLED)"
        using cool unfolding upd by (simp add: setTerminalCurrents_fields)
    qed
    then show ?thesis by (simp add: LED_getCurrent_def)
  qed
  have var: "variant (update 0.001 overdrivenLED) = Led (?f\<lparr>brightness := 1\<rparr>)"
    unfolding upd by (simp add: setTerminalCurrents_fields updateTemperature_fields)
  have burned: "\<not> isBurned (update 0.001 overdrivenLED)"
    using cool unfolding upd by (simp add: setTerminalCurrents_fields)
  have now: "getCurrent overdrivenLED = 0.045"
    unfolding getCurrent_def overdrivenLED_fields(1) Variant.case i ..
  have later: "getCurrent (update 0.001 overdrivenLED) = 0.045"
    unfolding getCurrent_def var Variant.case after ..
  have v: "getVoltage overdrivenLED = 12"
    by (simp add: getVoltage_def overdrivenLED_fields)
  show ?thesis
    unfolding v now later using burned by simp
qed

subsection \<open>The capacitor\<close>

text \<open>
  C8: the voltage a capacitor reports is its charge divided by its capacitance, before
  and after every \<open>update\<close>. An update of a capacitor that is not burned out integrates
  \<open>I = (V\<^sub>a - V\<^sub>b) / ESR\<close> into the charge, \<open>Q + I * dt\<close>; when the magnitude of that exceeds
  the rated voltage times the capacitance, the capacitor is burned out and its charge
  is 0.
\<close>

theorem Capacitor_charge_voltage:
  assumes "variant c = Capacitor f"
  shows "getVoltage c = charge f / capacitance f
     \<and> (\<exists>f'. variant (update dt c) = Capacitor f' \<and> capacitance f' = capacitance f
            \<and> getVoltage (update dt c) = charge f' / capacitance f'
            \<and> (length (terminals c) = 2 \<and> \<not> isBurned c \<longrightarrow>
                 (let q = charge f
                        + (voltage (terminals c ! 0) - voltage (terminals c ! 1)) / esr f * dt
                  in if \<bar>q\<bar> > maxVoltage f * capacitance f
                     then isBurned (update dt c) \<and> charge f' = 0
                     else charge f' = q)))"
  using assms
  by (auto simp: getVoltage_def Capacitor_getVoltage_def update_def Capacitor_update_def Let_def
      updateTemperature_fields setTerminalCurrents_fields)

theorem Capacitor_charge_voltage_witness:
  "getVoltage chargedCapacitor = 10
   \<and> getVoltage (update 0.0001 chargedCapacitor) = 20
   \<and> isBurned (update 1 chargedCapacitor)
   \<and> getVoltage (update 1 chargedCapacitor) = 0"
  using Capacitor_charge_voltage [of chargedCapacitor
      "\<lparr>capacitance = 0.0001, charge = 0.001, maxVoltage = 25, esr = 0.1\<rparr>" "0.0001"]
  by (simp add: chargedCapacitor_def Capacitor_new_def getVoltage_def Capacitor_getVoltage_def
      update_def Capacitor_update_def Let_def updateTemperature_fields
      setTerminalCurrents_fields)

section \<open>Properties of the linear solver\<close>

lemma andThen_Inr [simp]: "andThen (Inr x) f = f x"
  by (simp add: andThen_def)

lemma andThen_Inl [simp]: "andThen (Inl e) f = Inl e"
  by (simp add: andThen_def)

lemma andThen_eq_Inr: "andThen r f = Inr y \<longleftrightarrow> (\<exists>x. r = Inr x \<and> f x = Inr y)"
  by (cases r) auto

lemma forEach_append: "forEach body (ks @ ls) s = andThen (forEach body ks s) (forEach body ls)"
  by (induction ks arbitrary: s) (auto split: sum.splits)

lemma forEach_inv:
  assumes "I s" and "\<And>k s. k \<in> set ks \<Longrightarrow> I s \<Longrightarrow> \<exists>s'. body k s = Inr s' \<and> I s'"
  shows "\<exists>s'. forEach body ks s = Inr s' \<and> I s'"
  using assms
proof (induction ks arbitrary: s)
  case Nil
  then show ?case by simp
next
  case (Cons k ks)
  from Cons.prems obtain s1 where s1: "body k s = Inr s1" "I s1" by fastforce
  have "\<exists>s'. forEach body ks s1 = Inr s' \<and> I s'"
    by (rule Cons.IH) (use s1 Cons.prems in auto)
  with s1 show ?case by simp
qed

lemma forEach_preserves:
  assumes "forEach body ks s = Inr s'" and "P s"
    and "\<And>k s s'. k \<in> set ks \<Longrightarrow> P s \<Longrightarrow> body k s = Inr s' \<Longrightarrow> P s'"
  shows "P s'"
  using assms
proof (induction ks arbitrary: s)
  case Nil
  then show ?case by simp
next
  case (Cons k ks)
  from Cons.prems(1) obtain s1 where s1: "body k s = Inr s1" "forEach body ks s1 = Inr s'"
    by (auto split: sum.splits)
  have "P s1" using Cons.prems(2,3) s1(1) by auto
  show ?case by (rule Cons.IH [OF s1(2) \<open>P s1\<close>]) (use Cons.prems(3) in auto)
qed

lemma entry_wf: "wfAug n M \<Longrightarrow> k < n \<Longrightarrow> j \<le> n \<Longrightarrow> entry M k j = Inr (M ! k ! j)"
  by (auto simp: wfAug_def entry_def)

lemma findPivot_wf:
  assumes "wfAug n M" "i < n"
  shows "\<exists>m. findPivot M n i = Inr m \<and> i \<le> m \<and> m < n"
  unfolding findPivot_def
  by (rule forEach_inv [where I = "\<lambda>m. i \<le> m \<and> m < n"]) (use assms in \<open>auto simp: entry_wf\<close>)

lemma swapRows_wf: "wfAug n M \<Longrightarrow> i < n \<Longrightarrow> m < n \<Longrightarrow> wfAug n (swapRows M i m)"
  by (auto simp: wfAug_def swapRows_def dest!: set_update_subset_insert [THEN subsetD])

lemma update_row_wf:
  "wfAug n M \<Longrightarrow> k < n \<Longrightarrow> wfAug n (M[k := (M ! k)[j := v]])"
  by (auto simp: wfAug_def dest!: set_update_subset_insert [THEN subsetD])

lemma subtractScaled_wf:
  assumes "wfAug n M" "k < n" "i < n" "j \<le> n"
  shows "\<exists>M'. subtractScaled f i k j M = Inr M' \<and> wfAug n M'"
  using assms by (simp add: subtractScaled_def entry_wf update_row_wf)

lemma eliminateRow_wf:
  assumes "wfAug n M" "k < n" "i < n"
  shows "\<exists>M'. eliminateRow n i k M = Inr M' \<and> wfAug n M'"
  using assms unfolding eliminateRow_def
  by (simp add: entry_wf) (rule forEach_inv [where I = "wfAug n"], auto intro: subtractScaled_wf)

lemma forwardStep_wf:
  assumes "wfAug n M" "i < n"
  shows "\<exists>M'. forwardStep n i M = Inr M' \<and> wfAug n M'"
proof -
  from findPivot_wf [OF assms] obtain m where m: "findPivot M n i = Inr m" "i \<le> m" "m < n"
    by blast
  have wf1: "wfAug n (swapRows M i m)" using assms m by (simp add: swapRows_wf)
  have "\<exists>M'. forEach (eliminateRow n i) [i + 1..<n] (swapRows M i m) = Inr M' \<and> wfAug n M'"
    by (rule forEach_inv [where I = "wfAug n"]) (use assms wf1 in \<open>auto intro: eliminateRow_wf\<close>)
  then show ?thesis
    using m wf1 assms by (auto simp: forwardStep_def Let_def entry_wf)
qed

lemma forwardElimination_wf:
  assumes "wfAug n M"
  shows "\<exists>M'. forwardElimination n M = Inr M' \<and> wfAug n M'"
  unfolding forwardElimination_def
  by (rule forEach_inv [where I = "wfAug n"]) (use assms in \<open>auto intro: forwardStep_wf\<close>)

lemma subtractKnown_ok:
  assumes "wfAug n M" "i < n" "j < n"
  shows "subtractKnown M i j x = Inr (x[i := x ! i - M ! i ! j * x ! j])"
  using assms by (simp add: subtractKnown_def entry_wf)

lemma backStep_wf:
  assumes "wfAug n M" "i < n" "length x = n"
  shows "\<exists>x'. backStep M n i x = Inr x' \<and> length x' = n"
proof -
  have "\<exists>x'. forEach (subtractKnown M i) [i + 1..<n] (x[i := M ! i ! n]) = Inr x' \<and> length x' = n"
    by (rule forEach_inv [where I = "\<lambda>x. length x = n"]) (use assms in \<open>auto simp: subtractKnown_ok\<close>)
  then show ?thesis
    using assms by (auto simp: backStep_def entry_wf)
qed

lemma backSubstitution_wf:
  assumes "wfAug n M"
  shows "\<exists>x. backSubstitution M n = Inr x \<and> length x = n"
  unfolding backSubstitution_def
  by (rule forEach_inv [where I = "\<lambda>x. length x = n"]) (use assms in \<open>auto intro: backStep_wf\<close>)

lemma augment_wf:
  assumes "length A = length b" "\<forall>row \<in> set A. length row = length b"
  shows "wfAug (length b) (augment A b)"
  using assms by (auto simp: wfAug_def augment_def set_zip)


lemma subtractKnown_loop_other:
  assumes "wfAug n M" "i < n" "length x = n" "j \<noteq> i"
    and "forEach (subtractKnown M i) ks x = Inr x'" "\<forall>k \<in> set ks. k < n"
  shows "length x' = n \<and> x' ! j = x ! j"
  by (rule forEach_preserves [OF assms(5), where P = "\<lambda>y. length y = n \<and> y ! j = x ! j"])
    (use assms in \<open>auto simp: subtractKnown_ok\<close>)

lemma backStep_other:
  assumes "wfAug n M" "i < n" "length x = n" "j \<noteq> i" "backStep M n i x = Inr x'"
  shows "x' ! j = x ! j"
proof (cases "\<bar>M ! i ! i\<bar> < tolerance")
  case True
  with assms show ?thesis by (auto simp: backStep_def entry_wf)
next
  case False
  with assms obtain x1 where x1: "forEach (subtractKnown M i) [i + 1..<n] (x[i := M ! i ! n]) = Inr x1"
    and x': "x' = x1[i := x1 ! i / (M ! i ! i)]"
    by (auto simp: backStep_def entry_wf andThen_eq_Inr)
  have "length x1 = n \<and> x1 ! j = (x[i := M ! i ! n]) ! j"
    by (rule subtractKnown_loop_other [OF assms(1,2) _ assms(4) x1]) (use assms in auto)
  with x' assms(4) show ?thesis by simp
qed

lemma backStep_zero:
  assumes "wfAug n M" "i < n" "length x = n" "\<bar>M ! i ! i\<bar> < tolerance"
    and "backStep M n i x = Inr x'"
  shows "x' ! i = 0"
  using assms by (auto simp: backStep_def entry_wf)

lemma backLoop_other:
  assumes "wfAug n M" "length x = n" "forEach (backStep M n) ks x = Inr x'"
    and "\<forall>k \<in> set ks. k < n \<and> k \<noteq> j"
  shows "length x' = n \<and> x' ! j = x ! j"
proof (rule forEach_preserves [OF assms(3), where P = "\<lambda>y. length y = n \<and> y ! j = x ! j"])
  show "length x = n \<and> x ! j = x ! j" using assms by simp
next
  fix k s s'
  assume k: "k \<in> set ks" and s: "length s = n \<and> s ! j = x ! j" and step: "backStep M n k s = Inr s'"
  from k assms(4) have kn: "k < n" "j \<noteq> k" by auto
  from backStep_wf [OF assms(1) kn(1), of s] s step have "length s' = n" by auto
  moreover have "s' ! j = s ! j"
    by (rule backStep_other [OF assms(1) kn(1) _ kn(2) step]) (use s in simp)
  ultimately show "length s' = n \<and> s' ! j = x ! j" using s by simp
qed

lemma forEach_single: "forEach body [k] s = body k s"
  by (simp split: sum.splits)

lemma forEach_split3:
  "forEach body (ks @ [k] @ ls) s = Inr s' \<longleftrightarrow>
     (\<exists>s1 s2. forEach body ks s = Inr s1 \<and> body k s1 = Inr s2 \<and> forEach body ls s2 = Inr s')"
  by (simp only: forEach_append andThen_eq_Inr forEach_single) blast

lemma upt_split3:
  assumes "i < n"
  shows "[0..<n] = [0..<i] @ [i] @ [Suc i..<n]"
proof -
  have "[0..<n] = [0..<i] @ [i..<n]"
    using assms upt_add_eq_append [of 0 i "n - i"] by simp
  also have "[i..<n] = i # [Suc i..<n]"
    using assms by (rule upt_conv_Cons)
  finally show ?thesis by simp
qed

lemma backSubstitution_zero:
  assumes wf: "wfAug n M" and i: "i < n" and small: "\<bar>M ! i ! i\<bar> < tolerance"
    and run: "backSubstitution M n = Inr x"
  shows "x ! i = 0"
proof -
  have split: "rev [0..<n] = rev [Suc i..<n] @ [i] @ rev [0..<i]"
    using upt_split3 [OF i] by simp
  from run obtain x1 x2 where
    x1: "forEach (backStep M n) (rev [Suc i..<n]) (replicate n 0) = Inr x1"
    and x2: "backStep M n i x1 = Inr x2"
    and x: "forEach (backStep M n) (rev [0..<i]) x2 = Inr x"
    unfolding backSubstitution_def split forEach_split3 by blast
  have l1: "length x1 = n"
    using forEach_inv [where I = "\<lambda>y. length y = n" and body = "backStep M n"
        and ks = "rev [Suc i..<n]" and s = "replicate n 0"] x1 backStep_wf [OF wf]
    by auto
  have z: "x2 ! i = 0" by (rule backStep_zero [OF wf i l1 small x2])
  have l2: "length x2 = n" using backStep_wf [OF wf i l1] x2 by auto
  have "length x = n \<and> x ! i = x2 ! i"
    by (rule backLoop_other [OF wf l2 x]) (use i in auto)
  with z show ?thesis by simp
qed


lemma subtractScaled_other:
  assumes "wfAug n M" "k < n" "i < n" "j \<le> n" "r \<noteq> k" "subtractScaled f i k j M = Inr M'"
  shows "wfAug n M' \<and> M' ! r = M ! r"
  using assms by (auto simp: subtractScaled_def entry_wf update_row_wf)

lemma eliminateRow_other:
  assumes "wfAug n M" "k < n" "i < n" "r \<noteq> k" "eliminateRow n i k M = Inr M'"
  shows "wfAug n M' \<and> M' ! r = M ! r"
proof -
  from assms have run: "forEach (subtractScaled (M ! k ! i / M ! i ! i) i k) [i..<n + 1] M = Inr M'"
    by (simp add: eliminateRow_def entry_wf)
  show ?thesis
  proof (rule forEach_preserves [OF run, where P = "\<lambda>N. wfAug n N \<and> N ! r = M ! r"])
    show "wfAug n M \<and> M ! r = M ! r" using assms(1) by simp
  next
    fix j N N'
    assume j: "j \<in> set [i..<n + 1]" and N: "wfAug n N \<and> N ! r = M ! r"
      and step: "subtractScaled (M ! k ! i / M ! i ! i) i k j N = Inr N'"
    from j have jn: "j \<le> n" by auto
    from subtractScaled_other [OF _ assms(2,3) jn assms(4) step] N
    show "wfAug n N' \<and> N' ! r = M ! r" by simp
  qed
qed

lemma eliminate_loop_other:
  assumes "wfAug n M" "i < n" "r \<le> i" "forEach (eliminateRow n i) [i + 1..<n] M = Inr M'"
  shows "wfAug n M' \<and> M' ! r = M ! r"
proof (rule forEach_preserves [OF assms(4), where P = "\<lambda>N. wfAug n N \<and> N ! r = M ! r"])
  show "wfAug n M \<and> M ! r = M ! r" using assms(1) by simp
next
  fix k N N'
  assume k: "k \<in> set [i + 1..<n]" and N: "wfAug n N \<and> N ! r = M ! r"
    and step: "eliminateRow n i k N = Inr N'"
  from k assms(3) have kn: "k < n" "r \<noteq> k" by auto
  from eliminateRow_other [OF _ kn(1) assms(2) kn(2) step] N
  show "wfAug n N' \<and> N' ! r = M ! r" by simp
qed

lemma forwardStep_pivot_row:
  assumes "wfAug n M" "i < n" "forwardStep n i M = Inr M'" "pivotAt n i M = Inr p"
  shows "M' ! i ! i = p"
proof -
  from findPivot_wf [OF assms(1,2)] obtain m where m: "findPivot M n i = Inr m" "i \<le> m" "m < n"
    by blast
  have wf1: "wfAug n (swapRows M i m)" using assms m by (simp add: swapRows_wf)
  from assms(4) m wf1 assms(2) have p: "swapRows M i m ! i ! i = p"
    by (simp add: pivotAt_def entry_wf)
  show ?thesis
  proof (cases "\<bar>p\<bar> < tolerance")
    case True
    with assms(3) m wf1 assms(2) p show ?thesis
      by (simp add: forwardStep_def Let_def entry_wf)
  next
    case False
    with assms(3) m wf1 assms(2) p
    have "forEach (eliminateRow n i) [i + 1..<n] (swapRows M i m) = Inr M'"
      by (simp add: forwardStep_def Let_def entry_wf)
    from eliminate_loop_other [OF wf1 assms(2) _ this, of i] p show ?thesis by simp
  qed
qed

lemma forwardStep_earlier_row:
  assumes "wfAug n M" "i < n" "r < i" "forwardStep n i M = Inr M'"
  shows "M' ! r = M ! r"
proof -
  from findPivot_wf [OF assms(1,2)] obtain m where m: "findPivot M n i = Inr m" "i \<le> m" "m < n"
    by blast
  have wf1: "wfAug n (swapRows M i m)" using assms m by (simp add: swapRows_wf)
  have same: "swapRows M i m ! r = M ! r"
    using assms m by (simp add: swapRows_def)
  show ?thesis
  proof (cases "\<bar>swapRows M i m ! i ! i\<bar> < tolerance")
    case True
    with assms m wf1 same show ?thesis
      by (simp add: forwardStep_def Let_def entry_wf)
  next
    case False
    with assms m wf1
    have "forEach (eliminateRow n i) [i + 1..<n] (swapRows M i m) = Inr M'"
      by (simp add: forwardStep_def Let_def entry_wf)
    from eliminate_loop_other [OF wf1 assms(2) _ this, of r] assms(3) same show ?thesis by simp
  qed
qed

lemma forward_loop_earlier_row:
  assumes "wfAug n M" "forEach (forwardStep n) ks M = Inr M'" "\<forall>k \<in> set ks. r < k \<and> k < n"
  shows "wfAug n M' \<and> M' ! r = M ! r"
proof (rule forEach_preserves [OF assms(2), where P = "\<lambda>N. wfAug n N \<and> N ! r = M ! r"])
  show "wfAug n M \<and> M ! r = M ! r" using assms(1) by simp
next
  fix k N N'
  assume k: "k \<in> set ks" and N: "wfAug n N \<and> N ! r = M ! r" and step: "forwardStep n k N = Inr N'"
  from k assms(3) have kn: "r < k" "k < n" by auto
  from forwardStep_wf [of n N k] N kn step have "wfAug n N'" by auto
  moreover from forwardStep_earlier_row [OF _ kn(2) kn(1) step] N have "N' ! r = N ! r" by simp
  ultimately show "wfAug n N' \<and> N' ! r = M ! r" using N by simp
qed

lemma forward_loop_wf:
  assumes "wfAug n M" "forEach (forwardStep n) ks M = Inr M'" "\<forall>k \<in> set ks. k < n"
  shows "wfAug n M'"
proof (rule forEach_preserves [OF assms(2), where P = "wfAug n"])
  show "wfAug n M" by (rule assms(1))
next
  fix k N N'
  assume "k \<in> set ks" and N: "wfAug n N" and step: "forwardStep n k N = Inr N'"
  with assms(3) have "k < n" by simp
  from forwardStep_wf [OF N this] step show "wfAug n N'" by auto
qed

lemma forwardElimination_pivot:
  assumes wf: "wfAug n M0" and i: "i < n"
    and before: "forEach (forwardStep n) [0..<i] M0 = Inr M"
    and pivot: "pivotAt n i M = Inr p"
    and run: "forwardElimination n M0 = Inr M'"
  shows "M' ! i ! i = p"
proof -
  from run obtain M1 M2 where
    M1: "forEach (forwardStep n) [0..<i] M0 = Inr M1"
    and M2: "forwardStep n i M1 = Inr M2"
    and M': "forEach (forwardStep n) [Suc i..<n] M2 = Inr M'"
    unfolding forwardElimination_def upt_split3 [OF i] forEach_split3 by blast
  from M1 before have eq: "M1 = M" by simp
  have wfM: "wfAug n M" by (rule forward_loop_wf [OF wf before]) (use i in auto)
  from forwardStep_wf [OF wfM i] M2 eq have wf2: "wfAug n M2" by auto
  have "M2 ! i ! i = p" by (rule forwardStep_pivot_row [OF wfM i _ pivot]) (use M2 eq in simp)
  moreover have "wfAug n M' \<and> M' ! i = M2 ! i"
    by (rule forward_loop_earlier_row [OF wf2 M']) auto
  ultimately show ?thesis by simp
qed

lemma gaussianElimination_regular:
  "gaussianElimination [[2, 1], [1, 3]] [3, 5] = Inr (Some [4 / 5, 7 / 5])"
  by code_simp

lemma gaussianElimination_singular:
  "gaussianElimination [[0, 0], [0, 0]] [3, 5] = Inr (Some [0, 0])"
  by code_simp

text \<open>A matrix with fewer rows than \<open>b\<close> has elements makes the solver throw.\<close>

lemma gaussianElimination_missing_row:
  "gaussianElimination [[1]] [3, 5] = Inl TypeError"
  by code_simp

text \<open>
  C6: for a system of \<open>n\<close> equations in \<open>n\<close> unknowns the solver returns \<open>null\<close> exactly
  when \<open>n = 0\<close>; otherwise it returns a vector of \<open>n\<close> numbers and nothing is thrown. An
  unknown \<open>i\<close> whose pivot, read after the swap of iteration \<open>i\<close>, is below \<open>1e-10\<close> in
  magnitude is 0 in the result, and so is an unknown whose diagonal element is below
  \<open>1e-10\<close> in magnitude when the back substitution reads it.
\<close>

theorem gaussianElimination_total:
  assumes "length A = length b" and "\<forall>row \<in> set A. length row = length b"
  shows "(gaussianElimination A b = Inr None \<longleftrightarrow> b = [])
       \<and> (b \<noteq> [] \<longrightarrow>
            (\<exists>x. gaussianElimination A b = Inr (Some x) \<and> length x = length b
               \<and> (\<forall>i < length b. \<forall>M p.
                     forEach (forwardStep (length b)) [0..<i] (augment A b) = Inr M
                     \<and> pivotAt (length b) i M = Inr p \<and> \<bar>p\<bar> < tolerance \<longrightarrow> x ! i = 0)
               \<and> (\<forall>i < length b. \<forall>M.
                     forwardElimination (length b) (augment A b) = Inr M
                     \<and> \<bar>M ! i ! i\<bar> < tolerance \<longrightarrow> x ! i = 0)))"
proof -
  let ?n = "length b"
  have wf0: "wfAug ?n (augment A b)" by (rule augment_wf [OF assms])
  from forwardElimination_wf [OF wf0] obtain M' where
    M': "forwardElimination ?n (augment A b) = Inr M'" "wfAug ?n M'" by blast
  from backSubstitution_wf [OF M'(2)] obtain x where
    x: "backSubstitution M' ?n = Inr x" "length x = ?n" by blast
  have res: "b \<noteq> [] \<Longrightarrow> gaussianElimination A b = Inr (Some x)"
    using M' x by (simp add: gaussianElimination_def)
  have diag: "x ! i = 0" if "i < ?n" "\<bar>M' ! i ! i\<bar> < tolerance" for i
    by (rule backSubstitution_zero [OF M'(2) that x(1)])
  have piv: "x ! i = 0"
    if "i < ?n" "forEach (forwardStep ?n) [0..<i] (augment A b) = Inr M"
      "pivotAt ?n i M = Inr p" "\<bar>p\<bar> < tolerance" for i M p
  proof -
    have "M' ! i ! i = p" by (rule forwardElimination_pivot [OF wf0 that(1,2,3) M'(1)])
    with diag [OF that(1)] that(4) show ?thesis by simp
  qed
  have null: "gaussianElimination A b = Inr None \<longleftrightarrow> b = []"
  proof (cases "b = []")
    case True
    then show ?thesis by (simp add: gaussianElimination_def)
  next
    case False
    with res [OF False] show ?thesis by simp
  qed
  show ?thesis
  proof (intro conjI impI)
    show "gaussianElimination A b = Inr None \<longleftrightarrow> b = []" by (rule null)
  next
    assume nonempty: "b \<noteq> []"
    show "\<exists>x. gaussianElimination A b = Inr (Some x) \<and> length x = length b
               \<and> (\<forall>i < length b. \<forall>M p.
                     forEach (forwardStep (length b)) [0..<i] (augment A b) = Inr M
                     \<and> pivotAt (length b) i M = Inr p \<and> \<bar>p\<bar> < tolerance \<longrightarrow> x ! i = 0)
               \<and> (\<forall>i < length b. \<forall>M.
                     forwardElimination (length b) (augment A b) = Inr M
                     \<and> \<bar>M ! i ! i\<bar> < tolerance \<longrightarrow> x ! i = 0)"
    proof (intro exI [of _ x] conjI allI impI)
      show "gaussianElimination A b = Inr (Some x)" by (rule res [OF nonempty])
      show "length x = length b" by (rule x(2))
    next
      fix i M p
      assume i: "i < length b"
        and h: "forEach (forwardStep (length b)) [0..<i] (augment A b) = Inr M
             \<and> pivotAt (length b) i M = Inr p \<and> \<bar>p\<bar> < tolerance"
      from h have h1: "forEach (forwardStep (length b)) [0..<i] (augment A b) = Inr M"
        and h2: "pivotAt (length b) i M = Inr p" and h3: "\<bar>p\<bar> < tolerance"
        by (rule conjunct1, rule conjunct2 [THEN conjunct1], rule conjunct2 [THEN conjunct2])
      show "x ! i = 0" by (rule piv [OF i h1 h2 h3])
    next
      fix i M
      assume i: "i < length b"
        and h: "forwardElimination (length b) (augment A b) = Inr M \<and> \<bar>M ! i ! i\<bar> < tolerance"
      from h M'(1) have "M = M'" by simp
      with h have "\<bar>M' ! i ! i\<bar> < tolerance" by simp
      then show "x ! i = 0" by (rule diag [OF i])
    qed
  qed
qed

theorem gaussianElimination_total_witness:
  "gaussianElimination [[2, 1], [1, 3]] [3, 5] = Inr (Some [4 / 5, 7 / 5])
   \<and> gaussianElimination [[0, 0], [0, 0]] [3, 5] = Inr (Some [0, 0])
   \<and> gaussianElimination [] [] = Inr None"
  using gaussianElimination_total [of "[[2, 1], [1, 3]]" "[3, 5]"]
    gaussianElimination_total [of "[[0, 0], [0, 0]]" "[3, 5]"]
    gaussianElimination_total [of "[]" "[]"]
  by (simp add: gaussianElimination_regular gaussianElimination_singular)

section \<open>Node identifiers\<close>

text \<open>The counter of the base class never issues the same id twice in a row.\<close>

lemma counter_ids_increase:
  "fst (Component_generateNodeId n) < fst (Component_generateNodeId (snd (Component_generateNodeId n)))"
  by (simp add: Component_generateNodeId_def)

text \<open>
  C2 fails on the code: the method that runs is the subclass's
  \<open>Math.floor(Math.random() * 1000000)\<close>, and two different random numbers give the two
  terminals of one resistor the same node id.
\<close>

theorem random_node_ids_collide:
  "(1 / 2 :: real) \<noteq> 1 / 2 + 1 / 10 ^ 7
   \<and> map node (terminals twinResistor) = [500000, 500000]
   \<and> map node (terminals (Battery_new 9 (1 / 2) (3 / 4))) = [500000, 750000]"
  by (simp add: twinResistor_def Resistor_new_def Battery_new_def newTerminal_def generateNodeId_def)

section \<open>Removing a component\<close>

lemma rebuildCircuit_lists:
  "engineWires (rebuildCircuit w) = engineWires w"
  "engineComponents (rebuildCircuit w) = engineComponents w"
  "simWires (rebuildCircuit w) = simWires w"
  "simComponents (rebuildCircuit w) = simComponents w"
  "wireObjects (rebuildCircuit w) = wireObjects w"
  by (simp_all add: rebuildCircuit_def)

lemma removeComponent_keeps_engine_wires:
  "engineWires (CircuitSimulator_removeComponent c w) = engineWires w"
  by (simp add: CircuitSimulator_removeComponent_def PhysicsEngine_removeComponent_def Let_def
      rebuildCircuit_lists)

text \<open>
  C9 fails on the code: after \<open>CircuitSimulator.removeComponent\<close> has removed the
  resistor, the wire that ends at the resistor is gone from the simulator's \<open>wires\<close> but
  still in the engine's \<open>wires\<close>, the array \<open>rebuildCircuit\<close> and
  \<open>updateComponentValues\<close> iterate over.
\<close>

theorem removed_component_wire_remains:
  "simWires wiredPair = [0] \<and> engineWires wiredPair = [0]
   \<and> endComponent (wireObjects wiredPair 0) = 1
   \<and> simComponents (CircuitSimulator_removeComponent 1 wiredPair) = [0]
   \<and> engineComponents (CircuitSimulator_removeComponent 1 wiredPair) = [0]
   \<and> simWires (CircuitSimulator_removeComponent 1 wiredPair) = []
   \<and> engineWires (CircuitSimulator_removeComponent 1 wiredPair) = [0]
   \<and> endComponent (wireObjects (CircuitSimulator_removeComponent 1 wiredPair) 0) = 1"
  by (simp add: wiredPair_def CircuitSimulator_addWire_def CircuitSimulator_addComponent_def
      PhysicsEngine_addWire_def PhysicsEngine_addComponent_def newWorld_def
      CircuitSimulator_removeComponent_def PhysicsEngine_removeComponent_def Let_def
      Wire_new_def rebuildCircuit_lists)

section \<open>Properties of the matrix assembly\<close>
















lemma batteryOnly_nodes:
  "nodes batteryOnly = [(5, \<lparr>nodeId = 5, nodeVoltage = 0, nodeComponents = []\<rparr>),
                        (8, \<lparr>nodeId = 8, nodeVoltage = 0, nodeComponents = []\<rparr>)]"
  by (simp add: batteryOnly_def CircuitSimulator_addComponent_def PhysicsEngine_addComponent_def
      newWorld_def rebuildCircuit_def assignNodes_def registerNode_def Battery_new_def
      newTerminal_def generateNodeId_def)

lemma batteryOnly_parts:
  "engineComponents batteryOnly = [0]" "engineWires batteryOnly = []"
  "componentObjects batteryOnly 0 = Battery_new 9 0.000005 0.000008"
  "accumulator batteryOnly = 0"
  by (simp_all add: batteryOnly_def CircuitSimulator_addComponent_def
      PhysicsEngine_addComponent_def newWorld_def rebuildCircuit_def mergeWires_def)

lemma batteryOnly_size: "matrixSize batteryOnly = 3" "countVoltageSources batteryOnly = 1"
  by (simp_all add: matrixSize_def countVoltageSources_def batteryOnly_nodes batteryOnly_parts
      getVoltage_def Battery_getVoltage_def Battery_new_def)

lemma batteryOnly_nodeMap: "snd (buildNodeMap (nodes batteryOnly)) = [5 \<mapsto> 0, 8 \<mapsto> 1]"
  by (simp add: batteryOnly_nodes buildNodeMap_def numberNode_def groundNode_def)

lemma batteryOnly_assembled:
  "assembled batteryOnly = ([[10, -10, 0], [-10, 10, 0], [0, 0, 0]], [90, -90, 0])"
  by (simp add: assembled_def batteryOnly_size buildConductanceMatrix_def batteryOnly_nodeMap
      batteryOnly_parts stampComponent_def Battery_new_def newTerminal_def generateNodeId_def
      getResistance_def Battery_getResistance_def getVoltage_def Battery_getVoltage_def
      positive_def reciprocal_def orOne_def dividedBy_def addAt_def Let_def numeral_3_eq_3)

lemma batteryOnly_solution:
  "gaussianElimination [[10, -10, 0], [-10, 10, 0], [0, 0, 0]] [90, -90, 0] = Inr (Some [9, 0, 0])"
  by code_simp

lemma batteryOnly_solve:
  "solveCircuit batteryOnly =
     Inr (batteryOnly\<lparr>nodes := [(5, \<lparr>nodeId = 5, nodeVoltage = 9, nodeComponents = []\<rparr>),
                               (8, \<lparr>nodeId = 8, nodeVoltage = 0, nodeComponents = []\<rparr>)]\<rparr>)"
  by (simp add: solveCircuit_def batteryOnly_size batteryOnly_assembled batteryOnly_solution
      batteryOnly_nodes groundNode_def updateComponentValues_def batteryOnly_parts)

lemma batteryOnly_steps: "simulateSteps 0.001 batteryOnly = Inr batterySolved"
  by (simp add: simulate_def batteryOnly_parts batteryOnly_solve timeStep_def batterySolved_def)

lemma batteryOnly_terminalNodes: "terminalNodes batteryOnly = [5, 8]"
  by (simp add: terminalNodes_def batteryOnly_parts Battery_new_def newTerminal_def
      generateNodeId_def)

text \<open>
  For a lone battery the partition has two nodes, neither of them the ground node, and
  the assembled matrix is 3 by 3.
\<close>

lemma battery_matrix_size:
  "nonGroundNodeCount batteryOnly = 2
   \<and> length (fst (assembled batteryOnly)) = 3
   \<and> map length (fst (assembled batteryOnly)) = [3, 3, 3]
   \<and> length (snd (assembled batteryOnly)) = 3"
  by (simp add: nonGroundNodeCount_def batteryOnly_terminalNodes groundNode_def
      batteryOnly_assembled)




























section \<open>Properties of the simulation step\<close>

text \<open>A simulation step writes no terminal voltage.\<close>

lemma setCurrentAt_voltage:
  "map voltage (terminals (setCurrentAt c k i h d)) = map voltage (terminals (h d))"
proof (cases "k < length (terminals (h c))")
  case True
  then show ?thesis by (simp add: setCurrentAt_def map_update list_update_same_conv)
next
  case False
  then show ?thesis by (simp add: setCurrentAt_def list_update_beyond not_less)
qed

lemma updateWire_voltage:
  "map voltage (terminals (componentObjects (updateWire wid w) d))
     = map voltage (terminals (componentObjects w d))"
  by (simp add: updateWire_def Let_def setCurrentAt_voltage split: option.splits)

lemma updateComponentValues_voltage:
  "map voltage (terminals (componentObjects (updateComponentValues x w) d))
     = map voltage (terminals (componentObjects w d))"
proof -
  have "map voltage (terminals (componentObjects (fold updateWire ws w) d))
     = map voltage (terminals (componentObjects w d))" for ws
    by (induction ws arbitrary: w) (simp_all add: updateWire_voltage)
  then show ?thesis by (simp add: updateComponentValues_def)
qed

lemma simulate_keeps_terminal_voltages:
  assumes "simulate w = Inr w'"
  shows "map voltage (terminals (componentObjects w' d)) = map voltage (terminals (componentObjects w d))"
  using assms
  by (auto simp: simulate_def solveCircuit_def andThen_eq_Inr updateComponentValues_voltage
      split: if_splits option.splits)

text \<open>
  C1 fails on the code: \<open>PhysicsEngine.update(0.001)\<close> on the lone battery runs one
  simulation step and then the component updates on the state \<open>batterySolved\<close>. In that
  state the battery's first terminal belongs to node 5, solved at 9 V, and holds 0 V; its
  second terminal belongs to node 8, solved at 0 V, and holds 9 V.
\<close>

theorem stale_terminal_voltage:
  "PhysicsEngine_update 0.001 batteryOnly = Inr (updateComponents 0.001 batterySolved)
   \<and> map node (terminals (componentObjects batterySolved 0)) = [5, 8]
   \<and> map (\<lambda>(ident, nd). (ident, nodeVoltage nd)) (nodes batterySolved) = [(5, 9), (8, 0)]
   \<and> map voltage (terminals (componentObjects batterySolved 0)) = [0, 9]"
  by (simp add: PhysicsEngine_update_def batteryOnly_parts simulate_def batteryOnly_solve
      timeStep_def batterySolved_def Battery_new_def newTerminal_def generateNodeId_def)

section \<open>Properties of the circuit graph\<close>

lemma rename_commute:
  assumes "a \<le> b" "c \<le> d"
  shows "rename (max (rename b a c) (rename b a d)) (min (rename b a c) (rename b a d)) (rename b a v)
       = rename (max (rename d c a) (rename d c b)) (min (rename d c a) (rename d c b)) (rename d c v)"
  using assms unfolding rename_def max_def min_def by (auto split: if_splits)

lemma rename_commute_general:
  "rename (max (rename (max A B) (min A B) C) (rename (max A B) (min A B) D))
          (min (rename (max A B) (min A B) C) (rename (max A B) (min A B) D))
          (rename (max A B) (min A B) v)
   = rename (max (rename (max C D) (min C D) A) (rename (max C D) (min C D) B))
            (min (rename (max C D) (min C D) A) (rename (max C D) (min C D) B))
            (rename (max C D) (min C D) v)"
proof -
  have sym: "max x y = max y x" "min x y = min y x" for x y :: nat
    by (simp_all add: max.commute min.commute)
  consider "A \<le> B" "C \<le> D" | "A \<le> B" "D \<le> C" | "B \<le> A" "C \<le> D" | "B \<le> A" "D \<le> C"
    by linarith
  then show ?thesis
  proof cases
    case 1
    with rename_commute [of A B C D v] show ?thesis by (simp add: max_absorb2 min_absorb1)
  next
    case 2
    with rename_commute [of A B D C v] show ?thesis
      by (simp add: max_absorb2 min_absorb1 max_absorb1 min_absorb2 sym [of "rename B A C"])
  next
    case 3
    with rename_commute [of B A C D v] show ?thesis
      by (simp add: max_absorb2 min_absorb1 max_absorb1 min_absorb2 sym [of "rename D C A"])
  next
    case 4
    with rename_commute [of B A D C v] show ?thesis
      by (simp add: max_absorb2 min_absorb1 max_absorb1 min_absorb2 sym [of "rename A B C"]
          sym [of "rename C D A"])
  qed
qed

lemma relabelTerminal_rename:
  "relabelTerminal maxNode minNode t = t\<lparr>node := rename maxNode minNode (node t)\<rparr>"
  by (simp add: relabelTerminal_def rename_def)

lemma rename_idem: "rename mx mn (rename mx mn v) = rename mx mn v"
  by (simp add: rename_def)

lemma relabelComponent_rename:
  "relabelComponent mx mn c
     = c\<lparr>terminals := map (\<lambda>t. t\<lparr>node := rename mx mn (node t)\<rparr>) (terminals c)\<rparr>"
  by (simp add: relabelComponent_def relabelTerminal_rename [abs_def])

lemma relabelComponent_twice:
  "relabelComponent mx mn (relabelComponent mx mn c) = relabelComponent mx mn c"
  by (simp add: relabelComponent_rename comp_def rename_idem)

lemma fold_update_idem:
  assumes "\<And>x. F (F x) = F x"
  shows "fold (\<lambda>c h'. h'(c := F (h' c))) cs h = (\<lambda>c. if c \<in> set cs then F (h c) else h c)"
proof (induction cs arbitrary: h)
  case Nil
  then show ?case by simp
next
  case (Cons a cs)
  have "fold (\<lambda>c h'. h'(c := F (h' c))) (a # cs) h
      = fold (\<lambda>c h'. h'(c := F (h' c))) cs (h(a := F (h a)))"
    by simp
  also have "\<dots> = (\<lambda>c. if c \<in> set cs then F ((h(a := F (h a))) c) else (h(a := F (h a))) c)"
    by (rule Cons.IH)
  also have "\<dots> = (\<lambda>c. if c \<in> set (a # cs) then F (h c) else h c)"
    by (auto simp: fun_eq_iff assms)
  finally show ?case .
qed

lemma relabelAll_renameAll:
  "relabelAll cs mx mn h = renameAll cs (rename mx mn) h"
proof -
  have "relabelAll cs mx mn h
      = (\<lambda>c. if c \<in> set cs then relabelComponent mx mn (h c) else h c)"
    unfolding relabelAll_def by (rule fold_update_idem) (rule relabelComponent_twice)
  then show ?thesis by (simp add: renameAll_def relabelComponent_rename cong: if_cong)
qed

lemma renameAll_renameAll:
  "renameAll cs f (renameAll cs g h) = renameAll cs (f \<circ> g) h"
  by (simp add: renameAll_def fun_eq_iff comp_def)

lemma renameAll_id: "renameAll cs (\<lambda>v. v) h = h"
  by (simp add: renameAll_def fun_eq_iff)

lemma getTerminal_renameAll:
  "c \<in> set cs \<Longrightarrow>
     getTerminal (renameAll cs f h c) i
       = map_option (\<lambda>t. t\<lparr>node := f (node t)\<rparr>) (getTerminal (h c) i)"
  by (simp add: renameAll_def getTerminal_def)

lemma mergeWire_renameAll:
  "mergeWire cs wr h =
     (case getTerminal (h (startComponent wr)) (startTerminal wr) of
        None \<Rightarrow> h
      | Some s \<Rightarrow>
          (case getTerminal (h (endComponent wr)) (endTerminal wr) of
             None \<Rightarrow> h
           | Some e \<Rightarrow>
               renameAll cs (rename (max (node s) (node e)) (min (node s) (node e))) h))"
  by (simp add: mergeWire_def relabelAll_renameAll split: option.splits)

lemma rename_same: "rename a a = (\<lambda>v. v)"
  by (simp add: rename_def fun_eq_iff)

lemma mergeWire_joined: "joined h wr \<Longrightarrow> mergeWire cs wr h = h"
  by (auto simp: joined_def mergeWire_renameAll rename_same renameAll_id split: option.splits)

lemma mergeWire_commute:
  assumes "wireAttached cs w1" "wireAttached cs w2"
  shows "mergeWire cs w1 (mergeWire cs w2 h) = mergeWire cs w2 (mergeWire cs w1 h)"
proof -
  have "renameAll cs (rename mx1 mn1 \<circ> rename mx2 mn2) h
      = renameAll cs (rename mx2' mn2' \<circ> rename mx1' mn1') h"
    if "\<And>v. rename mx1 mn1 (rename mx2 mn2 v) = rename mx2' mn2' (rename mx1' mn1' v)"
    for mx1 mn1 mx2 mn2 mx1' mn1' mx2' mn2'
    using that by (simp add: comp_def)
  note eq = this [OF rename_commute_general [symmetric]]
  from assms show ?thesis
    by (auto simp: mergeWire_renameAll wireAttached_def getTerminal_renameAll
        renameAll_renameAll eq split: option.splits)
qed

lemma mergeWire_makes_joined:
  assumes "wireAttached cs wr"
  shows "joined (mergeWire cs wr h) wr"
  using assms
  by (auto simp: joined_def mergeWire_renameAll wireAttached_def getTerminal_renameAll
      rename_def max_def min_def split: option.splits)

lemma mergeWire_keeps_joined:
  assumes "wireAttached cs wr" "joined h wr"
  shows "joined (mergeWire cs wr' h) wr"
proof -
  have "joined (renameAll cs f h) wr" for f
    using assms
    by (auto simp: joined_def wireAttached_def getTerminal_renameAll split: option.splits)
  then show ?thesis
    using assms(2) by (simp add: mergeWire_renameAll split: option.splits)
qed

lemma mergeWires_permuted:
  assumes "\<forall>wid \<in> set ws. wireAttached cs (wo wid)" "mset ws' = mset ws"
  shows "mergeWires cs wo ws' h = mergeWires cs wo ws h"
proof -
  have "fold (\<lambda>wid. mergeWire cs (wo wid)) ws = fold (\<lambda>wid. mergeWire cs (wo wid)) ws'"
  proof (rule fold_multiset_equiv)
    fix x y
    assume "x \<in> set ws" "y \<in> set ws"
    with assms(1) have "wireAttached cs (wo x)" "wireAttached cs (wo y)" by auto
    then show "mergeWire cs (wo x) \<circ> mergeWire cs (wo y) = mergeWire cs (wo y) \<circ> mergeWire cs (wo x)"
      by (simp add: fun_eq_iff mergeWire_commute)
  next
    show "mset ws = mset ws'" using assms(2) by simp
  qed
  then show ?thesis by (simp add: mergeWires_def)
qed

lemma mergeWires_snoc:
  "mergeWires cs wo (ws @ [wid]) h = mergeWire cs (wo wid) (mergeWires cs wo ws h)"
  by (simp add: mergeWires_def)

lemma mergeWires_all_joined:
  assumes "\<forall>wid \<in> set ws. wireAttached cs (wo wid)"
  shows "\<forall>wid \<in> set ws. joined (mergeWires cs wo ws h) (wo wid)"
  using assms
proof (induction ws rule: rev_induct)
  case Nil
  then show ?case by simp
next
  case (snoc a ws)
  show ?case
  proof
    fix wid
    assume "wid \<in> set (ws @ [a])"
    then consider "wid = a" | "wid \<in> set ws" by auto
    then show "joined (mergeWires cs wo (ws @ [a]) h) (wo wid)"
    proof cases
      case 1
      with snoc.prems show ?thesis by (simp add: mergeWires_snoc mergeWire_makes_joined)
    next
      case 2
      with snoc.IH snoc.prems have "joined (mergeWires cs wo ws h) (wo wid)" by simp
      with 2 snoc.prems show ?thesis by (simp add: mergeWires_snoc mergeWire_keeps_joined)
    qed
  qed
qed

lemma mergeWires_joined:
  assumes "\<forall>wid \<in> set ws. joined h (wo wid)"
  shows "mergeWires cs wo ws h = h"
  using assms unfolding mergeWires_def
  by (induction ws) (simp_all add: mergeWire_joined)

lemma mergeWires_twice:
  assumes "\<forall>wid \<in> set ws. wireAttached cs (wo wid)"
  shows "mergeWires cs wo ws (mergeWires cs wo ws h) = mergeWires cs wo ws h"
  by (rule mergeWires_joined) (rule mergeWires_all_joined [OF assms])

lemma mergeWires_duplicate:
  assumes "\<forall>wid \<in> set ws. wireAttached cs (wo wid)" "wid \<in> set ws"
  shows "mergeWires cs wo (wid # ws) h = mergeWires cs wo ws h"
proof -
  from assms have att: "\<forall>x \<in> set (ws @ [wid]). wireAttached cs (wo x)" by simp
  have "mergeWires cs wo (wid # ws) h = mergeWires cs wo (ws @ [wid]) h"
    by (rule mergeWires_permuted [OF att]) simp
  also have "\<dots> = mergeWire cs (wo wid) (mergeWires cs wo ws h)" by (rule mergeWires_snoc)
  also have "\<dots> = mergeWires cs wo ws h"
    using mergeWires_all_joined [OF assms(1), of h] assms(2) by (simp add: mergeWire_joined)
  finally show ?thesis .
qed

lemmas edit_defs = PhysicsEngine_addComponent_def PhysicsEngine_removeComponent_def
  PhysicsEngine_addWire_def newWorld_def rebuildCircuit_def mergeWires_def mergeWire_def
  relabelAll_def relabelComponent_def relabelTerminal_def getTerminal_def

lemma threeListed_parts:
  "engineComponents threeListed = [0, 1, 2]" "engineWires threeListed = []"
  "componentObjects threeListed = threeParts" "wireObjects threeListed = twoWires"
  by (simp_all add: threeListed_def edit_defs)

lemma looseEnd_parts:
  "engineComponents looseEnd = [0, 1]" "engineWires looseEnd = []"
  "componentObjects looseEnd = threeParts" "wireObjects looseEnd = twoWires"
  by (simp_all add: looseEnd_def threeListed_parts edit_defs)

lemmas part_defs = threeParts_def twoWires_def Wire_new_def Resistor_new_def newTerminal_def
  generateNodeId_def

text \<open>
  C4, as stated, fails: with two wires that end at a component the engine no longer
  holds, the order of the wires decides whether the other two ends share a node; a
  second rebuild with the same wires changes the partition; and so does the order in
  which \<open>addWire\<close> inserts the two wires.
\<close>

theorem loose_wire_order_matters:
  "mset [1, 0] = mset [0, 1 :: nat]
   \<and> sameNode (rebuildCircuit (looseEnd\<lparr>engineWires := [0, 1]\<rparr>)) (0, 0) (1, 0)
   \<and> \<not> sameNode (rebuildCircuit (looseEnd\<lparr>engineWires := [1, 0]\<rparr>)) (0, 0) (1, 0)
   \<and> sameNode (rebuildCircuit (rebuildCircuit (looseEnd\<lparr>engineWires := [1, 0]\<rparr>))) (0, 0) (1, 0)
   \<and> sameNode (PhysicsEngine_addWire 1 (PhysicsEngine_addWire 0 looseEnd)) (0, 0) (1, 0)
   \<and> \<not> sameNode (PhysicsEngine_addWire 0 (PhysicsEngine_addWire 1 looseEnd)) (0, 0) (1, 0)"
  by (simp add: sameNode_def looseEnd_parts edit_defs part_defs)

text \<open>
  C4, amended: when both ends of every wire are components of the engine's list, a
  rebuild gives every terminal the same node id, hence the same partition and the same
  node map, for every permutation of the wires; a second rebuild changes no node id; and
  neither does a rebuild with one of the wires listed twice.
\<close>

theorem rebuild_order_independent:
  assumes "\<forall>wid \<in> set (engineWires w). wireAttached (engineComponents w) (wireObjects w wid)"
    and "mset ws' = mset (engineWires w)"
  shows "componentObjects (rebuildCircuit (w\<lparr>engineWires := ws'\<rparr>))
           = componentObjects (rebuildCircuit w)
       \<and> nodes (rebuildCircuit (w\<lparr>engineWires := ws'\<rparr>)) = nodes (rebuildCircuit w)
       \<and> (\<forall>s t. sameNode (rebuildCircuit (w\<lparr>engineWires := ws'\<rparr>)) s t
                 = sameNode (rebuildCircuit w) s t)
       \<and> componentObjects (rebuildCircuit (rebuildCircuit w))
           = componentObjects (rebuildCircuit w)
       \<and> (\<forall>wid \<in> set (engineWires w).
            componentObjects (rebuildCircuit (w\<lparr>engineWires := wid # engineWires w\<rparr>))
              = componentObjects (rebuildCircuit w))"
proof -
  have perm: "componentObjects (rebuildCircuit (w\<lparr>engineWires := ws'\<rparr>))
           = componentObjects (rebuildCircuit w)"
    using mergeWires_permuted [OF assms] by (simp add: rebuildCircuit_def)
  have twice: "componentObjects (rebuildCircuit (rebuildCircuit w))
           = componentObjects (rebuildCircuit w)"
    using mergeWires_twice [OF assms(1)] by (simp add: rebuildCircuit_def)
  have dup: "componentObjects (rebuildCircuit (w\<lparr>engineWires := wid # engineWires w\<rparr>))
              = componentObjects (rebuildCircuit w)" if "wid \<in> set (engineWires w)" for wid
    using mergeWires_duplicate [OF assms(1) that] by (simp add: rebuildCircuit_def)
  have nds: "nodes (rebuildCircuit (w\<lparr>engineWires := ws'\<rparr>)) = nodes (rebuildCircuit w)"
    by (simp add: rebuildCircuit_def)
  from perm twice dup nds show ?thesis by (simp add: sameNode_def)
qed

theorem rebuild_order_independent_witness:
  "sameNode (rebuildCircuit (threeListed\<lparr>engineWires := [0, 1]\<rparr>)) (0, 0) (1, 0)
   \<and> sameNode (rebuildCircuit (threeListed\<lparr>engineWires := [1, 0]\<rparr>)) (0, 0) (1, 0)
   \<and> \<not> sameNode (rebuildCircuit (threeListed\<lparr>engineWires := [1, 0]\<rparr>)) (0, 0) (0, 1)"
  using rebuild_order_independent [of "threeListed\<lparr>engineWires := [0, 1]\<rparr>" "[1, 0]"]
  by (simp add: sameNode_def threeListed_parts edit_defs part_defs wireAttached_def)

section \<open>The solver and its arguments\<close>

lemma inEither_Inr [simp]: "inEither P (Inr m) = P m"
  by (simp add: inEither_def)

lemma inEither_read:
  assumes "P m" "\<And>x. inEither P (f x)"
  shows "inEither P (andThen (atMemory m r) f)"
  using assms by (cases r) (simp_all add: andThen_def atMemory_def inEither_def)

lemma inEither_andThen:
  assumes "inEither P r" "\<And>m. r = Inr m \<Longrightarrow> P m \<Longrightarrow> inEither P (f m)"
  shows "inEither P (andThen r f)"
  using assms by (cases r) (auto simp: andThen_def inEither_def)

lemma inEither_forEach:
  assumes "P m" "\<And>k m. k \<in> set ks \<Longrightarrow> P m \<Longrightarrow> inEither P (body k m)"
  shows "inEither P (forEach body ks m)"
  using assms
proof (induction ks arbitrary: m)
  case Nil
  then show ?case by simp
next
  case (Cons k ks)
  have step: "inEither P (body k m)" using Cons.prems by simp
  show ?case
  proof (cases "body k m")
    case (Inl a)
    with step show ?thesis by (simp add: inEither_def)
  next
    case (Inr m')
    with step have "P m'" by simp
    then have "inEither P (forEach body ks m')"
      by (rule Cons.IH) (use Cons.prems(2) in simp)
    with Inr show ?thesis by simp
  qed
qed

lemma extends_refl: "extends m m"
  by (simp add: extends_def)

lemma readEntry_in_range:
  "readEntry m aug k j = Inr v \<Longrightarrow> k < length (rowArrays m ! aug)"
  by (simp add: readEntry_def split: if_splits)

lemma writeEntry_owned:
  assumes "owned m0 aug m" "k < length (rowArrays m ! aug)"
  shows "owned m0 aug (writeEntry aug k j v m)"
proof -
  from assms have "length (numArrays m0) \<le> rowArrays m ! aug ! k"
    by (simp add: owned_def)
  with assms(1) show ?thesis
    by (simp add: owned_def extends_def writeEntry_def)
qed

lemma atMemory_simps [simp]:
  "atMemory m (Inr x) = Inr x" "atMemory m (Inl e) = Inl (e, m)"
  by (simp_all add: atMemory_def)

lemma inEither_Inl [simp]: "inEither P (Inl (e, m)) = P m"
  by (simp add: inEither_def)

lemma subtractScaledInMemory_owned:
  assumes "owned m0 aug m"
  shows "inEither (owned m0 aug) (subtractScaledInMemory f aug i k j m)"
proof (cases "readEntry m aug k j")
  case (Inl e)
  with assms show ?thesis by (simp add: subtractScaledInMemory_def)
next
  case (Inr v)
  then have "k < length (rowArrays m ! aug)" by (rule readEntry_in_range)
  with assms have w: "\<And>w. owned m0 aug (writeEntry aug k j w m)" by (simp add: writeEntry_owned)
  have "inEither (owned m0 aug)
     (andThen (atMemory m (readEntry m aug i j)) (\<lambda>aij.
        Inr (writeEntry aug k j (v - f * aij) m)))"
    by (rule inEither_read) (simp_all add: assms w)
  with Inr show ?thesis by (simp add: subtractScaledInMemory_def)
qed

lemma eliminateRowInMemory_owned:
  assumes "owned m0 aug m"
  shows "inEither (owned m0 aug) (eliminateRowInMemory aug n i k m)"
  unfolding eliminateRowInMemory_def
  by (intro inEither_read inEither_forEach assms subtractScaledInMemory_owned)

lemma readEntry_beyond:
  "\<not> k < length (rowArrays m ! aug) \<Longrightarrow> readEntry m aug k j = Inl TypeError"
  by (simp add: readEntry_def)

lemma findPivotInMemory_range:
  assumes "findPivotInMemory m aug n i = Inr maxRow"
  shows "maxRow = i \<or> (i < length (rowArrays m ! aug) \<and> maxRow < length (rowArrays m ! aug))"
proof (rule forEach_preserves [OF assms [unfolded findPivotInMemory_def],
        where P = "\<lambda>r. r = i \<or> (i < length (rowArrays m ! aug) \<and> r < length (rowArrays m ! aug))"])
  show "i = i \<or> (i < length (rowArrays m ! aug) \<and> i < length (rowArrays m ! aug))" by simp
next
  fix k r r'
  assume k: "k \<in> set [i + 1..<n]"
    and r: "r = i \<or> (i < length (rowArrays m ! aug) \<and> r < length (rowArrays m ! aug))"
    and step: "andThen (readEntry m aug k i) (\<lambda>a.
                 andThen (readEntry m aug r i) (\<lambda>mx.
                 Inr (if \<bar>a\<bar> > \<bar>mx\<bar> then k else r))) = Inr r'"
  from step obtain a where a: "readEntry m aug k i = Inr a" and r': "r' = k \<or> r' = r"
    by (auto simp: andThen_eq_Inr)
  from a have "k < length (rowArrays m ! aug)" by (rule readEntry_in_range)
  moreover from k have "i < k" by simp
  ultimately show "r' = i \<or> (i < length (rowArrays m ! aug) \<and> r' < length (rowArrays m ! aug))"
    using r r' by auto
qed

lemma swapRowsInMemory_owned:
  assumes "owned m0 aug m"
    and "maxRow = i \<or> (i < length (rowArrays m ! aug) \<and> maxRow < length (rowArrays m ! aug))"
  shows "owned m0 aug (swapRowsInMemory aug i maxRow m)"
proof -
  let ?rows = "rowArrays m ! aug"
  have sub: "set ((?rows[i := ?rows ! maxRow])[maxRow := ?rows ! i]) \<subseteq> set ?rows"
  proof (cases "i < length ?rows")
    case True
    with assms(2) have "maxRow < length ?rows" by auto
    with True show ?thesis
      by (auto dest!: set_update_subset_insert [THEN subsetD])
  next
    case False
    with assms(2) have "maxRow = i" by auto
    with False show ?thesis by (simp add: list_update_beyond not_less)
  qed
  with assms(1) show ?thesis
    by (auto simp: owned_def extends_def swapRowsInMemory_def)
qed

lemma forwardStepInMemory_owned:
  assumes "owned m0 aug m"
  shows "inEither (owned m0 aug) (forwardStepInMemory aug n i m)"
proof (cases "findPivotInMemory m aug n i")
  case (Inl e)
  with assms show ?thesis by (simp add: forwardStepInMemory_def)
next
  case (Inr maxRow)
  let ?m1 = "swapRowsInMemory aug i maxRow m"
  have m1: "owned m0 aug ?m1"
    by (rule swapRowsInMemory_owned [OF assms findPivotInMemory_range [OF Inr]])
  have "inEither (owned m0 aug)
     (andThen (atMemory ?m1 (readEntry ?m1 aug i i)) (\<lambda>pivot.
        if \<bar>pivot\<bar> < tolerance then Inr ?m1
        else forEach (eliminateRowInMemory aug n i) [i + 1..<n] ?m1))"
  proof (rule inEither_read)
    show "owned m0 aug ?m1" by (rule m1)
  next
    fix pivot
    show "inEither (owned m0 aug)
        (if \<bar>pivot\<bar> < tolerance then Inr ?m1
         else forEach (eliminateRowInMemory aug n i) [i + 1..<n] ?m1)"
      by (simp add: m1 inEither_forEach eliminateRowInMemory_owned)
  qed
  with Inr show ?thesis by (simp add: forwardStepInMemory_def Let_def)
qed

lemma setElement_owned:
  assumes "ownedResult m0 aug x m"
  shows "ownedResult m0 aug x (setElement x i v m)"
  using assms by (simp add: ownedResult_def owned_def extends_def setElement_def)

lemma subtractKnownInMemory_owned:
  assumes "ownedResult m0 aug x m"
  shows "inEither (ownedResult m0 aug x) (subtractKnownInMemory aug x i j m)"
  unfolding subtractKnownInMemory_def
  by (rule inEither_read) (simp_all add: assms setElement_owned)

lemma backStepInMemory_owned:
  assumes "ownedResult m0 aug x m"
  shows "inEither (ownedResult m0 aug x) (backStepInMemory aug x n i m)"
  unfolding backStepInMemory_def
proof (rule inEither_read)
  show "ownedResult m0 aug x m" by (rule assms)
next
  fix d
  have "inEither (ownedResult m0 aug x)
     (andThen (atMemory m (readEntry m aug i n)) (\<lambda>rhs.
      andThen (forEach (subtractKnownInMemory aug x i) [i + 1..<n] (setElement x i rhs m)) (\<lambda>m1.
      andThen (atMemory m1 (readEntry m1 aug i i)) (\<lambda>d1.
      Inr (setElement x i (numArrays m1 ! x ! i / d1) m1)))))"
  proof (rule inEither_read)
    show "ownedResult m0 aug x m" by (rule assms)
  next
    fix rhs
    show "inEither (ownedResult m0 aug x)
      (andThen (forEach (subtractKnownInMemory aug x i) [i + 1..<n] (setElement x i rhs m)) (\<lambda>m1.
       andThen (atMemory m1 (readEntry m1 aug i i)) (\<lambda>d1.
       Inr (setElement x i (numArrays m1 ! x ! i / d1) m1))))"
    proof (rule inEither_andThen)
      show "inEither (ownedResult m0 aug x)
          (forEach (subtractKnownInMemory aug x i) [i + 1..<n] (setElement x i rhs m))"
        by (rule inEither_forEach) (simp_all add: assms setElement_owned subtractKnownInMemory_owned)
    next
      fix m1
      assume "ownedResult m0 aug x m1"
      then show "inEither (ownedResult m0 aug x)
          (andThen (atMemory m1 (readEntry m1 aug i i)) (\<lambda>d1.
             Inr (setElement x i (numArrays m1 ! x ! i / d1) m1)))"
        by (intro inEither_read) (simp_all add: setElement_owned)
    qed
  qed
  then show "inEither (ownedResult m0 aug x)
     (if \<bar>d\<bar> < tolerance then Inr (setElement x i 0 m)
      else andThen (atMemory m (readEntry m aug i n)) (\<lambda>rhs.
           andThen (forEach (subtractKnownInMemory aug x i) [i + 1..<n] (setElement x i rhs m)) (\<lambda>m1.
           andThen (atMemory m1 (readEntry m1 aug i i)) (\<lambda>d1.
           Inr (setElement x i (numArrays m1 ! x ! i / d1) m1)))))"
    by (simp add: assms setElement_owned)
qed

lemma copyRows_owned:
  assumes "extends m0 (snd s)" "\<forall>ra \<in> set (fst s). length (numArrays m0) \<le> ra"
  shows "extends m0 (snd (fold (copyRow b) ris s))
       \<and> (\<forall>ra \<in> set (fst (fold (copyRow b) ris s)). length (numArrays m0) \<le> ra)"
  using assms
proof (induction ris arbitrary: s)
  case Nil
  then show ?case by simp
next
  case (Cons ri ris)
  have len: "length (numArrays m0) \<le> length (numArrays (snd s))"
    using Cons.prems(1) by (metis extends_def length_take min.cobounded1)
  have "extends m0 (snd (copyRow b ri s))
      \<and> (\<forall>ra \<in> set (fst (copyRow b ri s)). length (numArrays m0) \<le> ra)"
    using Cons.prems len by (simp add: copyRow_def Let_def extends_def)
  then show ?case using Cons.IH [of "copyRow b ri s"] by simp
qed

lemma augmentInMemory_owned:
  "owned m (fst (augmentInMemory A b m)) (snd (augmentInMemory A b m))"
proof -
  let ?rows = "rowArrays m ! A"
  let ?copied = "fold (copyRow b) (zip ?rows [0..<length ?rows]) ([], m)"
  have c: "extends m (snd ?copied) \<and> (\<forall>ra \<in> set (fst ?copied). length (numArrays m) \<le> ra)"
    by (rule copyRows_owned) (simp_all add: extends_refl)
  then have len: "length (rowArrays m) \<le> length (rowArrays (snd ?copied))"
    by (metis extends_def length_take min.cobounded1)
  with c show ?thesis
    by (simp add: augmentInMemory_def Let_def owned_def extends_def)
qed

lemma extends_length:
  "extends m0 m \<Longrightarrow> length (numArrays m0) \<le> length (numArrays m)"
  by (metis extends_def length_take min.cobounded1)

lemma allocate_result_owned:
  assumes "owned m0 aug m"
  shows "ownedResult m0 aug (length (numArrays m)) (m\<lparr>numArrays := numArrays m @ [xs]\<rparr>)"
  using assms extends_length [of m0 m]
  by (simp add: ownedResult_def owned_def extends_def)

text \<open>
  On the sample system the solver returns the address 5 of the new array \<open>[4/5, 7/5]\<close>;
  the augmented rows are the new arrays at 3 and 4, and the arrays at 0, 1 and 2 are as
  they were.
\<close>

lemma sampleMemory_run:
  "gaussianEliminationInMemory 0 2 sampleMemory =
     Inr (Some 5,
          \<lparr>numArrays = [[2, 1], [1, 3], [3, 5], [2, 1, 3], [0, 5 / 2, 7 / 2], [4 / 5, 7 / 5]],
           rowArrays = [[0, 1], [3, 4]]\<rparr>)"
  by code_simp

text \<open>
  C10: \<open>gaussianElimination\<close> leaves its inputs unchanged. Whatever the memory, and
  whatever \<open>A\<close> and \<open>b\<close> are, every array that existed before the call holds the same
  elements when the call ends: the elimination writes only to arrays it has allocated
  itself (the copied rows, the array of those rows, and \<open>x\<close>).
\<close>

theorem gaussianElimination_frame:
  "take (length (numArrays m))
        (numArrays (memoryAfter (gaussianEliminationInMemory A b m))) = numArrays m
   \<and> take (length (rowArrays m))
        (rowArrays (memoryAfter (gaussianEliminationInMemory A b m))) = rowArrays m"
proof -
  let ?n = "length (numArrays m ! b)"
  let ?aug = "fst (augmentInMemory A b m)"
  let ?m1 = "snd (augmentInMemory A b m)"
  have "extends m (memoryAfter (gaussianEliminationInMemory A b m))"
  proof (cases "?n = 0")
    case True
    then show ?thesis
      by (simp add: gaussianEliminationInMemory_def memoryAfter_def extends_refl)
  next
    case False
    have fwd: "inEither (owned m ?aug) (forEach (forwardStepInMemory ?aug ?n) [0..<?n] ?m1)"
      by (rule inEither_forEach) (simp_all add: augmentInMemory_owned forwardStepInMemory_owned)
    show ?thesis
    proof (cases "forEach (forwardStepInMemory ?aug ?n) [0..<?n] ?m1")
      case (Inl a)
      obtain e m' where a: "a = (e, m')" by (cases a)
      with fwd Inl have "extends m m'" by (simp add: owned_def)
      with False Inl a show ?thesis
        by (simp add: gaussianEliminationInMemory_def Let_def memoryAfter_def)
    next
      case (Inr m2)
      note run2 = Inr
      let ?x = "length (numArrays m2)"
      let ?m3 = "m2\<lparr>numArrays := numArrays m2 @ [replicate ?n 0]\<rparr>"
      from fwd Inr have "owned m ?aug m2" by simp
      then have m3: "ownedResult m ?aug ?x ?m3" by (rule allocate_result_owned)
      have bsub: "inEither (ownedResult m ?aug ?x)
          (forEach (backStepInMemory ?aug ?x ?n) (rev [0..<?n]) ?m3)"
        by (rule inEither_forEach) (simp_all add: m3 backStepInMemory_owned)
      show ?thesis
      proof (cases "forEach (backStepInMemory ?aug ?x ?n) (rev [0..<?n]) ?m3")
        case (Inl a)
        obtain e m' where a: "a = (e, m')" by (cases a)
        with bsub Inl have "extends m m'" by (simp add: ownedResult_def owned_def)
        with False run2 Inl a show ?thesis
          by (simp add: gaussianEliminationInMemory_def Let_def memoryAfter_def)
      next
        case (Inr m4)
        with bsub have "extends m m4" by (simp add: ownedResult_def owned_def)
        with False run2 Inr show ?thesis
          by (simp add: gaussianEliminationInMemory_def Let_def memoryAfter_def)
      qed
    qed
  qed
  then show ?thesis by (simp add: extends_def)
qed

section \<open>The solver on values and the solver on shared arrays\<close>

text \<open>The run of \<open>gaussianElimination\<close> on an explicit memory computes what the run on
  values computes: the same error, the same singular verdict, or a freshly
  allocated array holding the same solution.\<close>

lemma readEntry_entry: "readEntry m aug k j = entry (loaded m aug) k j"
  by (simp add: readEntry_def entry_def loaded_def)

lemma findPivotInMemory_findPivot:
  "findPivotInMemory m aug n i = findPivot (loaded m aug) n i"
  by (simp add: findPivotInMemory_def findPivot_def readEntry_entry)

lemma agrees_forEach:
  assumes "R s m"
    and "\<And>k s m. k \<in> set ks \<Longrightarrow> R s m \<Longrightarrow> agrees R (body k s) (bodyM k m)"
  shows "agrees R (forEach body ks s) (forEach bodyM ks m)"
  using assms
proof (induction ks arbitrary: s m)
  case Nil
  then show ?case by (simp add: agrees_def)
next
  case (Cons k ks)
  have step: "agrees R (body k s) (bodyM k m)" using Cons.prems by simp
  show ?case
  proof (cases "body k s")
    case (Inl e)
    with step show ?thesis by (auto simp: agrees_def)
  next
    case (Inr s')
    with step obtain m' where m': "bodyM k m = Inr m'" "R s' m'" by (auto simp: agrees_def)
    have "agrees R (forEach body ks s') (forEach bodyM ks m')"
      by (rule Cons.IH [OF m'(2)]) (use Cons.prems(2) in simp)
    with Inr m' show ?thesis by simp
  qed
qed

lemma agrees_read:
  assumes "\<And>v. r = Inr v \<Longrightarrow> agrees R (f v) (g v)"
  shows "agrees R (andThen r f) (andThen (atMemory m r) g)"
  using assms by (cases r) (simp_all add: agrees_def)

lemma swapRowsInMemory_sound:
  assumes "sound m aug" "maxRow = i \<or> (i < length (loaded m aug) \<and> maxRow < length (loaded m aug))"
  shows "sound (swapRowsInMemory aug i maxRow m) aug
       \<and> loaded (swapRowsInMemory aug i maxRow m) aug = swapRows (loaded m aug) i maxRow"
proof (cases "i < length (rowArrays m ! aug)")
  case True
  with assms(2) have mx: "maxRow < length (rowArrays m ! aug)" by (auto simp: loaded_def)
  let ?rows = "rowArrays m ! aug"
  let ?rows' = "(?rows[i := ?rows ! maxRow])[maxRow := ?rows ! i]"
  have "mset ?rows' = mset ?rows"
    using True mx by (simp add: mset_swap)
  then have "distinct ?rows'" "set ?rows' = set ?rows"
    using assms(1) by (metis sound_def mset_eq_imp_distinct_iff, metis mset_eq_setD)
  with assms(1) True mx show ?thesis
    by (simp add: sound_def swapRowsInMemory_def loaded_def swapRows_def map_update)
next
  case False
  with assms(2) have "maxRow = i" by (auto simp: loaded_def)
  with False assms(1) show ?thesis
    by (simp add: sound_def swapRowsInMemory_def loaded_def swapRows_def list_update_beyond not_less)
qed

lemma writeEntry_sound:
  assumes "sound m aug" "k < length (loaded m aug)"
  shows "sound (writeEntry aug k j v m) aug
       \<and> loaded (writeEntry aug k j v m) aug = (loaded m aug)[k := (loaded m aug ! k)[j := v]]"
proof -
  let ?rows = "rowArrays m ! aug"
  from assms have k: "k < length ?rows" by (simp add: loaded_def)
  with assms(1) have valid: "?rows ! k < length (numArrays m)" by (simp add: sound_def)
  have "map (\<lambda>ra. (numArrays m)[?rows ! k := (numArrays m ! (?rows ! k))[j := v]] ! ra) ?rows
      = (map (\<lambda>ra. numArrays m ! ra) ?rows)[k := (numArrays m ! (?rows ! k))[j := v]]"
  proof (rule nth_equalityI)
    show "length (map (\<lambda>ra. (numArrays m)[?rows ! k := (numArrays m ! (?rows ! k))[j := v]] ! ra) ?rows)
        = length ((map (\<lambda>ra. numArrays m ! ra) ?rows)[k := (numArrays m ! (?rows ! k))[j := v]])"
      by simp
  next
    fix p
    assume "p < length (map (\<lambda>ra. (numArrays m)[?rows ! k := (numArrays m ! (?rows ! k))[j := v]] ! ra) ?rows)"
    then have p: "p < length ?rows" by simp
    show "map (\<lambda>ra. (numArrays m)[?rows ! k := (numArrays m ! (?rows ! k))[j := v]] ! ra) ?rows ! p
        = (map (\<lambda>ra. numArrays m ! ra) ?rows)[k := (numArrays m ! (?rows ! k))[j := v]] ! p"
    proof (cases "p = k")
      case True
      with p valid show ?thesis by simp
    next
      case False
      with p k assms(1) have "?rows ! p \<noteq> ?rows ! k"
        by (simp add: sound_def nth_eq_iff_index_eq)
      with p False show ?thesis by simp
    qed
  qed
  with assms(1) k show ?thesis
    by (simp add: sound_def writeEntry_def loaded_def)
qed

lemma agrees_Inr [simp]: "agrees R (Inr s) (Inr m) = R s m"
  by (simp add: agrees_def)

lemma entry_in_range: "entry M k j = Inr v \<Longrightarrow> k < length M"
  by (simp add: entry_def split: if_splits)

lemma subtractScaled_agrees:
  assumes "holds aug M m"
  shows "agrees (holds aug) (subtractScaled f i k j M) (subtractScaledInMemory f aug i k j m)"
proof -
  from assms have M: "loaded m aug = M" and snd: "sound m aug" by (simp_all add: holds_def)
  show ?thesis
    unfolding subtractScaled_def subtractScaledInMemory_def readEntry_entry M
  proof (rule agrees_read)
    fix akj
    assume "entry M k j = Inr akj"
    then have k: "k < length (loaded m aug)" using M by (simp add: entry_in_range)
    show "agrees (holds aug)
        (andThen (entry M i j) (\<lambda>aij. Inr (M[k := (M ! k)[j := akj - f * aij]])))
        (andThen (atMemory m (entry M i j)) (\<lambda>aij. Inr (writeEntry aug k j (akj - f * aij) m)))"
    proof (rule agrees_read)
      fix aij
      from writeEntry_sound [OF snd k, of j "akj - f * aij"] M
      show "agrees (holds aug) (Inr (M[k := (M ! k)[j := akj - f * aij]]))
          (Inr (writeEntry aug k j (akj - f * aij) m))"
        by (simp add: holds_def)
    qed
  qed
qed

lemma eliminateRow_agrees:
  assumes "holds aug M m"
  shows "agrees (holds aug) (eliminateRow n i k M) (eliminateRowInMemory aug n i k m)"
proof -
  from assms have M: "loaded m aug = M" by (simp add: holds_def)
  show ?thesis
    unfolding eliminateRow_def eliminateRowInMemory_def readEntry_entry M
    by (intro agrees_read agrees_forEach assms subtractScaled_agrees)
qed

lemma findPivot_range:
  assumes "findPivot M n i = Inr maxRow"
  shows "maxRow = i \<or> (i < length M \<and> maxRow < length M)"
proof (rule forEach_preserves [OF assms [unfolded findPivot_def],
        where P = "\<lambda>r. r = i \<or> (i < length M \<and> r < length M)"])
  show "i = i \<or> (i < length M \<and> i < length M)" by simp
next
  fix k r r'
  assume k: "k \<in> set [i + 1..<n]" and r: "r = i \<or> (i < length M \<and> r < length M)"
    and step: "andThen (entry M k i) (\<lambda>a.
                 andThen (entry M r i) (\<lambda>mx. Inr (if \<bar>a\<bar> > \<bar>mx\<bar> then k else r))) = Inr r'"
  from step obtain a where a: "entry M k i = Inr a" and r': "r' = k \<or> r' = r"
    by (auto simp: andThen_eq_Inr)
  from a have "k < length M" by (rule entry_in_range)
  moreover from k have "i < k" by simp
  ultimately show "r' = i \<or> (i < length M \<and> r' < length M)" using r r' by auto
qed

lemma forwardStep_agrees:
  assumes "holds aug M m"
  shows "agrees (holds aug) (forwardStep n i M) (forwardStepInMemory aug n i m)"
proof -
  from assms have M: "loaded m aug = M" and snd: "sound m aug" by (simp_all add: holds_def)
  show ?thesis
    unfolding forwardStep_def forwardStepInMemory_def findPivotInMemory_findPivot M
  proof (rule agrees_read)
    fix maxRow
    assume "findPivot M n i = Inr maxRow"
    from findPivot_range [OF this] M
    have "maxRow = i \<or> (i < length (loaded m aug) \<and> maxRow < length (loaded m aug))" by simp
    from swapRowsInMemory_sound [OF snd this] M
    have h1: "holds aug (swapRows M i maxRow) (swapRowsInMemory aug i maxRow m)"
      by (simp add: holds_def)
    then have l1: "loaded (swapRowsInMemory aug i maxRow m) aug = swapRows M i maxRow"
      by (simp add: holds_def)
    show "agrees (holds aug)
        (let aug1 = swapRows M i maxRow in
         andThen (entry aug1 i i) (\<lambda>pivot.
           if \<bar>pivot\<bar> < tolerance then Inr aug1
           else forEach (eliminateRow n i) [i + 1..<n] aug1))
        (let m1 = swapRowsInMemory aug i maxRow m in
         andThen (atMemory m1 (readEntry m1 aug i i)) (\<lambda>pivot.
           if \<bar>pivot\<bar> < tolerance then Inr m1
           else forEach (eliminateRowInMemory aug n i) [i + 1..<n] m1))"
      unfolding Let_def readEntry_entry l1
    proof (rule agrees_read)
      fix pivot
      show "agrees (holds aug)
          (if \<bar>pivot\<bar> < tolerance then Inr (swapRows M i maxRow)
           else forEach (eliminateRow n i) [i + 1..<n] (swapRows M i maxRow))
          (if \<bar>pivot\<bar> < tolerance then Inr (swapRowsInMemory aug i maxRow m)
           else forEach (eliminateRowInMemory aug n i) [i + 1..<n]
                  (swapRowsInMemory aug i maxRow m))"
        by (simp add: h1 agrees_forEach eliminateRow_agrees)
    qed
  qed
qed

lemma forwardElimination_agrees:
  assumes "holds aug M m"
  shows "agrees (holds aug) (forwardElimination n M)
           (forEach (forwardStepInMemory aug n) [0..<n] m)"
  unfolding forwardElimination_def
  by (rule agrees_forEach [where R = "holds aug"]) (simp_all add: assms forwardStep_agrees)

lemma agrees_andThen:
  assumes "agrees R r rm" "\<And>s m. R s m \<Longrightarrow> agrees R' (f s) (g m)"
  shows "agrees R' (andThen r f) (andThen rm g)"
proof (cases r)
  case (Inl e)
  with assms(1) show ?thesis by (auto simp: agrees_def)
next
  case (Inr s)
  with assms(1) obtain m where m: "rm = Inr m" "R s m" by (auto simp: agrees_def)
  from assms(2) [OF m(2)] Inr m(1) show ?thesis by simp
qed

lemma setElement_holds:
  assumes "holdsResult aug M xa x m"
  shows "holdsResult aug M xa (x[i := v]) (setElement xa i v m)"
proof -
  from assms have xa: "xa < length (numArrays m)" "xa \<notin> set (rowArrays m ! aug)"
    and x: "numArrays m ! xa = x" and h: "holds aug M m"
    by (simp_all add: holdsResult_def)
  have "map (\<lambda>ra. (numArrays m)[xa := v'] ! ra) (rowArrays m ! aug)
      = map (\<lambda>ra. numArrays m ! ra) (rowArrays m ! aug)" for v'
  proof (rule map_cong [OF refl])
    fix ra
    assume "ra \<in> set (rowArrays m ! aug)"
    with xa(2) have "ra \<noteq> xa" by auto
    then show "(numArrays m)[xa := v'] ! ra = numArrays m ! ra" by simp
  qed
  with xa x h show ?thesis
    by (simp add: holdsResult_def holds_def sound_def loaded_def setElement_def)
qed

lemma subtractKnown_agrees:
  assumes "holdsResult aug M xa x m"
  shows "agrees (holdsResult aug M xa) (subtractKnown M i j x) (subtractKnownInMemory aug xa i j m)"
proof -
  from assms have M: "loaded m aug = M" and x: "numArrays m ! xa = x"
    by (simp_all add: holdsResult_def holds_def)
  show ?thesis
    unfolding subtractKnown_def subtractKnownInMemory_def readEntry_entry M x
    by (rule agrees_read) (simp add: setElement_holds [OF assms])
qed

lemma backStep_agrees:
  assumes "holdsResult aug M xa x m"
  shows "agrees (holdsResult aug M xa) (backStep M n i x) (backStepInMemory aug xa n i m)"
proof -
  from assms have M: "loaded m aug = M" and x: "numArrays m ! xa = x"
    by (simp_all add: holdsResult_def holds_def)
  have rd: "readEntry m aug k j = entry M k j" for k j
    by (simp add: readEntry_entry M)
  show ?thesis
    unfolding backStep_def backStepInMemory_def rd
  proof (rule agrees_read)
    fix d
    have rest: "agrees (holdsResult aug M xa)
        (andThen (entry M i n) (\<lambda>rhs.
         andThen (forEach (subtractKnown M i) [i + 1..<n] (x[i := rhs])) (\<lambda>x1.
         andThen (entry M i i) (\<lambda>d1. Inr (x1[i := x1 ! i / d1])))))
        (andThen (atMemory m (entry M i n)) (\<lambda>rhs.
         andThen (forEach (subtractKnownInMemory aug xa i) [i + 1..<n] (setElement xa i rhs m)) (\<lambda>m1.
         andThen (atMemory m1 (readEntry m1 aug i i)) (\<lambda>d1.
         Inr (setElement xa i (numArrays m1 ! xa ! i / d1) m1)))))"
    proof (rule agrees_read)
      fix rhs
      show "agrees (holdsResult aug M xa)
          (andThen (forEach (subtractKnown M i) [i + 1..<n] (x[i := rhs])) (\<lambda>x1.
           andThen (entry M i i) (\<lambda>d1. Inr (x1[i := x1 ! i / d1]))))
          (andThen (forEach (subtractKnownInMemory aug xa i) [i + 1..<n] (setElement xa i rhs m)) (\<lambda>m1.
           andThen (atMemory m1 (readEntry m1 aug i i)) (\<lambda>d1.
           Inr (setElement xa i (numArrays m1 ! xa ! i / d1) m1))))"
      proof (rule agrees_andThen [where R = "holdsResult aug M xa"])
        show "agrees (holdsResult aug M xa)
            (forEach (subtractKnown M i) [i + 1..<n] (x[i := rhs]))
            (forEach (subtractKnownInMemory aug xa i) [i + 1..<n] (setElement xa i rhs m))"
          by (rule agrees_forEach [where R = "holdsResult aug M xa"])
            (simp_all add: setElement_holds [OF assms] subtractKnown_agrees)
      next
        fix x1 m1
        assume h1: "holdsResult aug M xa x1 m1"
        then have M1: "loaded m1 aug = M" and x1: "numArrays m1 ! xa = x1"
          by (simp_all add: holdsResult_def holds_def)
        show "agrees (holdsResult aug M xa)
            (andThen (entry M i i) (\<lambda>d1. Inr (x1[i := x1 ! i / d1])))
            (andThen (atMemory m1 (readEntry m1 aug i i)) (\<lambda>d1.
               Inr (setElement xa i (numArrays m1 ! xa ! i / d1) m1)))"
          unfolding readEntry_entry M1 x1
          by (rule agrees_read) (simp add: setElement_holds [OF h1])
      qed
    qed
    show "agrees (holdsResult aug M xa)
        (if \<bar>d\<bar> < tolerance then Inr (x[i := 0])
         else andThen (entry M i n) (\<lambda>rhs.
              andThen (forEach (subtractKnown M i) [i + 1..<n] (x[i := rhs])) (\<lambda>x1.
              andThen (entry M i i) (\<lambda>d1. Inr (x1[i := x1 ! i / d1])))))
        (if \<bar>d\<bar> < tolerance then Inr (setElement xa i 0 m)
         else andThen (atMemory m (entry M i n)) (\<lambda>rhs.
              andThen (forEach (subtractKnownInMemory aug xa i) [i + 1..<n] (setElement xa i rhs m)) (\<lambda>m1.
              andThen (atMemory m1 (readEntry m1 aug i i)) (\<lambda>d1.
              Inr (setElement xa i (numArrays m1 ! xa ! i / d1) m1)))))"
      using rest by (simp add: setElement_holds [OF assms])
  qed
qed

lemma backSubstitution_agrees:
  assumes "holdsResult aug M xa x m"
  shows "agrees (holdsResult aug M xa) (forEach (backStep M n) ks x)
           (forEach (backStepInMemory aug xa n) ks m)"
  by (rule agrees_forEach [where R = "holdsResult aug M xa"]) (simp_all add: assms backStep_agrees)

lemma copyRows_result:
  assumes "\<forall>ri \<in> set ris. fst ri < length (numArrays m0)" "b < length (numArrays m0)"
    and "numArrays (snd s) = numArrays m0 @ extra" "rowArrays (snd s) = rowArrays m0"
    and "fst s = [length (numArrays m0)..<length (numArrays m0) + length extra]"
  shows "numArrays (snd (fold (copyRow b) ris s))
           = numArrays m0 @ extra
             @ map (\<lambda>ri. numArrays m0 ! fst ri
                    @ (if snd ri < length (numArrays m0 ! b)
                       then [numArrays m0 ! b ! snd ri] else [])) ris
       \<and> rowArrays (snd (fold (copyRow b) ris s)) = rowArrays m0
       \<and> fst (fold (copyRow b) ris s)
           = [length (numArrays m0)..<length (numArrays m0) + length extra + length ris]"
  using assms
proof (induction ris arbitrary: s extra)
  case Nil
  then show ?case by simp
next
  case (Cons ri ris)
  let ?fresh = "numArrays m0 ! fst ri
      @ (if snd ri < length (numArrays m0 ! b) then [numArrays m0 ! b ! snd ri] else [])"
  from Cons.prems have r: "fst ri < length (numArrays m0)" by simp
  have one: "numArrays (snd (copyRow b ri s)) = numArrays m0 @ (extra @ [?fresh])"
    "rowArrays (snd (copyRow b ri s)) = rowArrays m0"
    "fst (copyRow b ri s)
       = [length (numArrays m0)..<length (numArrays m0) + length (extra @ [?fresh])]"
    using Cons.prems(2-5) r by (simp_all add: copyRow_def Let_def nth_append)
  have "\<forall>ri \<in> set ris. fst ri < length (numArrays m0)" using Cons.prems(1) by simp
  from Cons.IH [OF this Cons.prems(2) one] show ?case by simp
qed

lemma nth_fresh:
  "map (\<lambda>a. (xs @ ys) ! a) [length xs..<length xs + length ys] = ys"
  by (rule nth_equalityI) (simp_all add: nth_append)

lemma augment_zip:
  "augment (map f rows) bs
     = map (\<lambda>ri. f (fst ri) @ (if snd ri < length bs then [bs ! snd ri] else []))
         (zip rows [0..<length rows])"
  by (simp add: augment_def zip_map1 case_prod_beta)

lemma augmentInMemory_holds:
  assumes "A < length (rowArrays m)" "b < length (numArrays m)"
    and "\<forall>r \<in> set (rowArrays m ! A). r < length (numArrays m)"
  shows "holds (fst (augmentInMemory A b m)) (augment (loaded m A) (numArrays m ! b))
           (snd (augmentInMemory A b m))
       \<and> length (numArrays m) \<le> length (numArrays (snd (augmentInMemory A b m)))"
proof -
  let ?rows = "rowArrays m ! A"
  let ?ris = "zip ?rows [0..<length ?rows]"
  let ?copied = "fold (copyRow b) ?ris ([], m)"
  let ?new = "map (\<lambda>ri. numArrays m ! fst ri
                    @ (if snd ri < length (numArrays m ! b)
                       then [numArrays m ! b ! snd ri] else [])) ?ris"
  have valid: "\<forall>ri \<in> set ?ris. fst ri < length (numArrays m)"
    using assms(3) by (auto dest: set_zip_leftD)
  from copyRows_result [OF valid assms(2), of "([], m)" "[]"]
  have c: "numArrays (snd ?copied) = numArrays m @ ?new"
    "rowArrays (snd ?copied) = rowArrays m"
    "fst ?copied = [length (numArrays m)..<length (numArrays m) + length ?new]"
    by simp_all
  have "map (\<lambda>ra. (numArrays m @ ?new) ! ra)
          [length (numArrays m)..<length (numArrays m) + length ?new] = ?new"
    by (rule nth_fresh)
  moreover have "augment (loaded m A) (numArrays m ! b) = ?new"
    unfolding loaded_def by (rule augment_zip)
  ultimately show ?thesis
    using c by (simp add: augmentInMemory_def Let_def holds_def sound_def loaded_def)
qed

lemma allocate_result_holds:
  assumes "holds aug M m"
  shows "holdsResult aug M (length (numArrays m)) xs (m\<lparr>numArrays := numArrays m @ [xs]\<rparr>)"
proof -
  from assms have valid: "\<forall>ra \<in> set (rowArrays m ! aug). ra < length (numArrays m)"
    and M: "loaded m aug = M" and s: "sound m aug"
    by (simp_all add: holds_def sound_def)
  have "map (\<lambda>ra. (numArrays m @ [xs]) ! ra) (rowArrays m ! aug)
      = map (\<lambda>ra. numArrays m ! ra) (rowArrays m ! aug)"
    using valid by (auto intro!: map_cong simp: nth_append)
  with valid M s show ?thesis
    by (auto simp: holdsResult_def holds_def sound_def loaded_def)
qed

theorem gaussianEliminationInMemory_agrees:
  assumes "A < length (rowArrays m)" "b < length (numArrays m)"
    and "\<forall>r \<in> set (rowArrays m ! A). r < length (numArrays m)"
  shows "case gaussianElimination (loaded m A) (numArrays m ! b) of
           Inl e \<Rightarrow> (\<exists>m'. gaussianEliminationInMemory A b m = Inl (e, m'))
         | Inr None \<Rightarrow> gaussianEliminationInMemory A b m = Inr (None, m)
         | Inr (Some x) \<Rightarrow>
             (\<exists>xa m'. gaussianEliminationInMemory A b m = Inr (Some xa, m')
                \<and> length (numArrays m) \<le> xa \<and> numArrays m' ! xa = x)"
proof (cases "length (numArrays m ! b) = 0")
  case True
  then show ?thesis
    by (simp add: gaussianElimination_def gaussianEliminationInMemory_def)
next
  case False
  let ?n = "length (numArrays m ! b)"
  let ?aug = "fst (augmentInMemory A b m)"
  let ?m1 = "snd (augmentInMemory A b m)"
  let ?M0 = "augment (loaded m A) (numArrays m ! b)"
  from augmentInMemory_holds [OF assms]
  have h1: "holds ?aug ?M0 ?m1" and len1: "length (numArrays m) \<le> length (numArrays ?m1)"
    by simp_all
  have fwd: "agrees (holds ?aug) (forwardElimination ?n ?M0)
      (forEach (forwardStepInMemory ?aug ?n) [0..<?n] ?m1)"
    by (rule forwardElimination_agrees [OF h1])
  show ?thesis
  proof (cases "forwardElimination ?n ?M0")
    case (Inl e)
    with fwd obtain m' where "forEach (forwardStepInMemory ?aug ?n) [0..<?n] ?m1 = Inl (e, m')"
      by (auto simp: agrees_def)
    with False Inl show ?thesis
      by (simp add: gaussianElimination_def gaussianEliminationInMemory_def Let_def)
  next
    case (Inr M)
    note fwdM = Inr
    with fwd obtain m2 where m2: "forEach (forwardStepInMemory ?aug ?n) [0..<?n] ?m1 = Inr m2"
      and h2: "holds ?aug M m2" by (auto simp: agrees_def)
    let ?xa = "length (numArrays m2)"
    let ?m3 = "m2\<lparr>numArrays := numArrays m2 @ [replicate ?n 0]\<rparr>"
    have h3: "holdsResult ?aug M ?xa (replicate ?n 0) ?m3"
      by (rule allocate_result_holds [OF h2])
    have ext: "extends m m2"
    proof -
      have "inEither (owned m ?aug) (forEach (forwardStepInMemory ?aug ?n) [0..<?n] ?m1)"
        by (rule inEither_forEach) (rule augmentInMemory_owned, rule forwardStepInMemory_owned)
      with m2 show ?thesis by (simp add: owned_def inEither_def)
    qed
    from extends_length [OF ext] have xa: "length (numArrays m) \<le> ?xa" by simp
    have bk: "agrees (holdsResult ?aug M ?xa) (backSubstitution M ?n)
        (forEach (backStepInMemory ?aug ?xa ?n) (rev [0..<?n]) ?m3)"
      unfolding backSubstitution_def by (rule backSubstitution_agrees [OF h3])
    show ?thesis
    proof (cases "backSubstitution M ?n")
      case (Inl e)
      with bk obtain m' where
        "forEach (backStepInMemory ?aug ?xa ?n) (rev [0..<?n]) ?m3 = Inl (e, m')"
        by (auto simp: agrees_def)
      with False fwdM m2 Inl show ?thesis
        by (simp add: gaussianElimination_def gaussianEliminationInMemory_def Let_def)
    next
      case (Inr x)
      with bk obtain m4 where
        m4: "forEach (backStepInMemory ?aug ?xa ?n) (rev [0..<?n]) ?m3 = Inr m4"
        and h4: "holdsResult ?aug M ?xa x m4" by (auto simp: agrees_def)
      from h4 have "numArrays m4 ! ?xa = x" by (simp add: holdsResult_def)
      with False fwdM m2 Inr m4 xa show ?thesis
        by (simp add: gaussianElimination_def gaussianEliminationInMemory_def Let_def)
    qed
  qed
qed

end
